theory Spec2Isabelle
  imports Complex_Main "HOL-Library.Product_Lexorder"
begin

section \<open>Data model\<close>

text \<open>
  The environment of \<^verbatim>\<open>main.py\<close> (class \<^verbatim>\<open>PredatorPreyEnv\<close>) keeps a numpy
  object array \<^verbatim>\<open>grid\<close> whose cells hold \<^verbatim>\<open>0\<close> (empty), \<^verbatim>\<open>-1\<close> (wall) or a
  reference to an \<^verbatim>\<open>Agent\<close> object, and a list \<^verbatim>\<open>agents\<close> of the same objects.
  The objects are shared between the two, so the model has an explicit object store:
  a reference is a natural number, \<open>objects\<close> maps a reference to the state of the
  object, and both the list and the grid hold references.
\<close>

type_synonym pos = "int \<times> int"
type_synonym ref = nat

text \<open>The two role strings the environment ever passes to \<^verbatim>\<open>Agent(...)\<close>:
  \<^verbatim>\<open>'predator'\<close> and \<^verbatim>\<open>'prey'\<close>. On these two the tests \<^verbatim>\<open>"predator" in a.role\<close>
  and \<^verbatim>\<open>a.role == 'predator'\<close> agree, and so do the two for prey.\<close>

datatype role = Predator | Prey

text \<open>Modelled from the spec: the class \<^verbatim>\<open>Agent\<close> (file \<^verbatim>\<open>agent.py\<close> is not among the
  sources). An agent has an id, a role, a position and a health; \<^verbatim>\<open>get_position\<close> and
  \<^verbatim>\<open>set_position\<close> read and write the position, \<^verbatim>\<open>add_health\<close> changes the health by
  the amount given. A Python float is taken as the real number it stands for; the sum
  and the product of two floats are rounded by the machine, so they are not the sum and
  the product of the reals: the two operations are parameters \<open>float_add\<close> and
  \<open>float_mul\<close> of the environment, about which nothing is assumed.\<close>

record agent =
  agent_id :: string
  role :: role
  position :: pos
  health :: real

definition get_position :: "agent \<Rightarrow> pos" where
  "get_position a = position a"

definition set_position :: "agent \<Rightarrow> pos \<Rightarrow> agent" where
  "set_position a p = a\<lparr>position := p\<rparr>"

definition add_health :: "(real \<Rightarrow> real \<Rightarrow> real) \<Rightarrow> agent \<Rightarrow> real \<Rightarrow> agent" where
  "add_health fadd a d = a\<lparr>health := fadd (health a) d\<rparr>"

datatype cell = Empty | Wall | Ref ref

datatype error = KeyError string | ValueError

text \<open>The fields of \<^verbatim>\<open>PredatorPreyEnv\<close>, with the object store. \<open>initial_health\<close> is
  the health \<^verbatim>\<open>Agent.__init__\<close> gives a new agent: the constructor is not among the
  sources and the spec does not give the value, so it is a parameter. \<open>float_add\<close> and
  \<open>float_mul\<close> are the machine's addition and multiplication of floats.\<close>

record env =
  grid_size :: "int \<times> int"
  num_predators :: nat
  num_prey :: nat
  num_walls :: nat
  predator_scope :: int
  health_gained :: real
  max_num_predators :: nat
  max_num_preys :: nat
  agents :: "ref list"
  walls_positions :: "pos list"
  grid :: "pos \<Rightarrow> cell"
  objects :: "ref \<Rightarrow> agent"
  initial_health :: real
  float_add :: "real \<Rightarrow> real \<Rightarrow> real"
  float_mul :: "real \<Rightarrow> real \<Rightarrow> real"

type_synonym actions = "string \<rightharpoonup> int"
type_synonym rewards = "string \<rightharpoonup> int"
type_synonym dones = "string \<rightharpoonup> bool"

text \<open>The state of the random generator is a tape of raw numbers. A call of
  \<^verbatim>\<open>random.randint(a, b)\<close> raises \<^verbatim>\<open>ValueError\<close> when the range is empty, before it
  draws anything; otherwise it takes the next number \<open>r\<close> of the tape and returns
  \<open>a + r mod (b - a + 1)\<close>, so every value of the range can come out.\<close>

type_synonym tape = "nat list"

definition randint :: "int \<Rightarrow> int \<Rightarrow> nat \<Rightarrow> error + int" where
  "randint a b r = (if b < a then Inl ValueError else Inr (a + int r mod (b - a + 1)))"

section \<open>Agents and ids\<close>

text \<open>\<^verbatim>\<open>str(n)\<close> of a non-negative integer, for the f-strings \<^verbatim>\<open>f"pr_{n}"\<close>, \<^verbatim>\<open>f"py_{n}"\<close>.\<close>

fun str :: "nat \<Rightarrow> string" where
  "str n = (if n < 10 then [''0123456789'' ! n]
            else str (n div 10) @ [''0123456789'' ! (n mod 10)])"

declare str.simps [simp del]

definition is_role :: "env \<Rightarrow> role \<Rightarrow> ref \<Rightarrow> bool" where
  "is_role e r h = (role (objects e h) = r)"

text \<open>\<^verbatim>\<open>[a for a in self.agents if "predator" in a.role]\<close> and its sibling for prey.\<close>

definition agents_of :: "role \<Rightarrow> env \<Rightarrow> ref list" where
  "agents_of r e = filter (is_role e r) (agents e)"

text \<open>A new object is distinct from every object of \<^verbatim>\<open>self.agents\<close>.\<close>

definition new_ref :: "env \<Rightarrow> ref" where
  "new_ref e = Suc (fold max (agents e) 0)"

text \<open>\<^verbatim>\<open>a = Agent(id, role, (x, y)); self.grid[x, y] = a; self.agents.append(a)\<close>\<close>

definition create_agent :: "string \<Rightarrow> role \<Rightarrow> pos \<Rightarrow> env \<Rightarrow> env" where
  "create_agent i r p e =
     (let h = new_ref e in
      e\<lparr>agents := agents e @ [h],
        grid := (grid e)(p := Ref h),
        objects := (objects e)(h := \<lparr>agent_id = i, role = r, position = p,
                                     health = initial_health e\<rparr>)\<rparr>)"

section \<open>Random placement\<close>

text \<open>The loop
  \<^verbatim>\<open>while True: x, y = randint(0, W - 1), randint(0, H - 1); if self.grid[x, y] == 0: ... break\<close>
  which the source has five times. Each round takes two numbers from the tape. The
  outcome \<open>None\<close> means that the loop is still running when the tape ends,
  \<open>Some (Inl err)\<close> that it raised, \<open>Some (Inr (p, t))\<close> that it found the empty cell
  \<open>p\<close> and left the tape \<open>t\<close>. On a grid with a dimension of zero the first call of
  \<^verbatim>\<open>randint\<close> raises, whatever the tape.\<close>

fun find_empty :: "int \<times> int \<Rightarrow> (pos \<Rightarrow> cell) \<Rightarrow> tape \<Rightarrow> (error + pos \<times> tape) option" where
  "find_empty gs g (rx # ry # rs) =
     (case randint 0 (fst gs - 1) rx of
        Inl err \<Rightarrow> Some (Inl err)
      | Inr x \<Rightarrow>
          (case randint 0 (snd gs - 1) ry of
             Inl err \<Rightarrow> Some (Inl err)
           | Inr y \<Rightarrow>
               if g (x, y) = Empty then Some (Inr ((x, y), rs)) else find_empty gs g rs))"
| "find_empty gs g [rx] =
     (case randint 0 (fst gs - 1) rx of
        Inl err \<Rightarrow> Some (Inl err)
      | Inr x \<Rightarrow> if snd gs - 1 < 0 then Some (Inl ValueError) else None)"
| "find_empty gs g [] = (if fst gs - 1 < 0 then Some (Inl ValueError) else None)"

section \<open>reset\<close>

fun place_walls :: "nat \<Rightarrow> env \<Rightarrow> tape \<Rightarrow> (error + env \<times> tape) option" where
  "place_walls 0 e t = Some (Inr (e, t))"
| "place_walls (Suc n) e t =
     (case find_empty (grid_size e) (grid e) t of
        None \<Rightarrow> None
      | Some (Inl err) \<Rightarrow> Some (Inl err)
      | Some (Inr (p, t')) \<Rightarrow>
          place_walls n (e\<lparr>grid := (grid e)(p := Wall),
                            walls_positions := walls_positions e @ [p]\<rparr>) t')"

definition prefix_of :: "role \<Rightarrow> string" where
  "prefix_of r = (case r of Predator \<Rightarrow> ''pr_'' | Prey \<Rightarrow> ''py_'')"

text \<open>\<^verbatim>\<open>for i in range(n): while True: ... Agent(f"pr_{i}", "predator", (x, y)) ...\<close>,
  over the list of the indices.\<close>

fun place_agents :: "role \<Rightarrow> nat list \<Rightarrow> env \<Rightarrow> tape \<Rightarrow> (error + env \<times> tape) option" where
  "place_agents r [] e t = Some (Inr (e, t))"
| "place_agents r (i # is) e t =
     (case find_empty (grid_size e) (grid e) t of
        None \<Rightarrow> None
      | Some (Inl err) \<Rightarrow> Some (Inl err)
      | Some (Inr (p, t')) \<Rightarrow>
          place_agents r is (create_agent (prefix_of r @ str i) r p e) t')"

text \<open>\<^verbatim>\<open>reset\<close> clears the grid and the wall list (not the agent list), then places walls,
  predators and prey. The observations it returns are built below.\<close>

definition reset_env :: "env \<Rightarrow> tape \<Rightarrow> (error + env \<times> tape) option" where
  "reset_env e t =
     (case place_walls (num_walls e) (e\<lparr>grid := (\<lambda>_. Empty), walls_positions := []\<rparr>) t of
        None \<Rightarrow> None
      | Some (Inl err) \<Rightarrow> Some (Inl err)
      | Some (Inr (e1, t1)) \<Rightarrow>
          (case place_agents Predator [0..<num_predators e1] e1 t1 of
             None \<Rightarrow> None
           | Some (Inl err) \<Rightarrow> Some (Inl err)
           | Some (Inr (e2, t2)) \<Rightarrow> place_agents Prey [0..<num_prey e2] e2 t2))"

section \<open>agents\_move\<close>

text \<open>The candidate destination of one agent: lines 90 to 102.\<close>

definition candidate :: "int \<times> int \<Rightarrow> pos \<Rightarrow> int \<Rightarrow> pos" where
  "candidate gs p action =
     (let x = fst p; y = snd p in
      if action = 1 then ((x - 1) mod fst gs, y)
      else if action = 2 then ((x + 1) mod fst gs, y)
      else if action = 3 then (x, (y - 1) mod snd gs)
      else if action = 4 then (x, (y + 1) mod snd gs)
      else (x, y))"

text \<open>Lines 104 to 107: the destination is taken when its cell is empty in the grid
  as it is before the move.\<close>

definition resolve :: "env \<Rightarrow> pos \<Rightarrow> int \<Rightarrow> pos" where
  "resolve e p action =
     (let c = candidate (grid_size e) p action in
      if grid e c = Empty then c else p)"

text \<open>The first loop: \<^verbatim>\<open>new_positions\<close>, a dictionary keyed by agent id.
  \<^verbatim>\<open>actions[agent.id]\<close> raises \<^verbatim>\<open>KeyError\<close> for an agent without an action.\<close>

fun new_positions :: "env \<Rightarrow> actions \<Rightarrow> ref list \<Rightarrow> (string \<rightharpoonup> pos) \<Rightarrow> error + (string \<rightharpoonup> pos)" where
  "new_positions e acts [] np = Inr np"
| "new_positions e acts (h # hs) np =
     (let a = objects e h in
      case acts (agent_id a) of
        None \<Rightarrow> Inl (KeyError (agent_id a))
      | Some action \<Rightarrow>
          new_positions e acts hs (np(agent_id a \<mapsto> resolve e (get_position a) action)))"

text \<open>\<^verbatim>\<open>self.grid.fill(0); for wall in self.walls_positions: self.grid[wall] = -1\<close>\<close>

definition walls_grid :: "pos list \<Rightarrow> pos \<Rightarrow> cell" where
  "walls_grid ws = fold (\<lambda>w g. g(w := Wall)) ws (\<lambda>_. Empty)"

text \<open>The second loop writes every agent to the position stored under its id.\<close>

fun write_agents :: "(string \<rightharpoonup> pos) \<Rightarrow> ref list \<Rightarrow> env \<Rightarrow> error + env" where
  "write_agents np [] e = Inr e"
| "write_agents np (h # hs) e =
     (case np (agent_id (objects e h)) of
        None \<Rightarrow> Inl (KeyError (agent_id (objects e h)))
      | Some p \<Rightarrow>
          write_agents np hs
            (e\<lparr>grid := (grid e)(p := Ref h),
               objects := (objects e)(h := set_position (objects e h) p)\<rparr>))"

definition agents_move :: "env \<Rightarrow> actions \<Rightarrow> error + env" where
  "agents_move e acts =
     (case new_positions e acts (agents e) Map.empty of
        Inl err \<Rightarrow> Inl err
      | Inr np \<Rightarrow> write_agents np (agents e) (e\<lparr>grid := walls_grid (walls_positions e)\<rparr>))"

section \<open>hunting\<close>

definition is_prey_cell :: "env \<Rightarrow> pos \<Rightarrow> bool" where
  "is_prey_cell e n = (case grid e n of Ref h \<Rightarrow> role (objects e h) = Prey | _ \<Rightarrow> False)"

definition wrap :: "int \<times> int \<Rightarrow> pos \<Rightarrow> int \<Rightarrow> int \<Rightarrow> pos" where
  "wrap gs p dx dy = ((fst p + dx) mod fst gs, (snd p + dy) mod snd gs)"

text \<open>Lines 124 to 133: the list \<^verbatim>\<open>prey_in_scope\<close> of one predator, in the order of
  the two nested loops.\<close>

definition prey_in_scope :: "env \<Rightarrow> pos \<Rightarrow> (int \<times> pos) list" where
  "prey_in_scope e p =
     (let s = predator_scope e in
      [(\<bar>dx\<bar> + \<bar>dy\<bar>, wrap (grid_size e) p dx dy).
         dx \<leftarrow> [- s..s], dy \<leftarrow> [- s..s],
         \<not> (dx = 0 \<and> dy = 0), is_prey_cell e (wrap (grid_size e) p dx dy)])"

text \<open>Lines 135 to 138: \<^verbatim>\<open>prey_in_scope.sort()\<close> compares the tuples
  \<^verbatim>\<open>(distance, (nx, ny))\<close> lexicographically; the target is the position of the first.\<close>

definition target_prey_pos :: "env \<Rightarrow> pos \<Rightarrow> pos option" where
  "target_prey_pos e p =
     (let ps = prey_in_scope e p in
      if ps = [] then None else Some (snd (hd (sort ps))))"

text \<open>The body of the loop over the predators. The victim is the first agent of
  \<^verbatim>\<open>self.agents\<close> whose position is the target.\<close>

definition hunt :: "ref \<Rightarrow> env \<Rightarrow> rewards \<Rightarrow> dones \<Rightarrow> error + (env \<times> rewards \<times> dones)" where
  "hunt pr e rw dn =
     (case target_prey_pos e (get_position (objects e pr)) of
        None \<Rightarrow> Inr (e, rw, dn)
      | Some target \<Rightarrow>
          (case find (\<lambda>h. get_position (objects e h) = target) (agents e) of
             None \<Rightarrow> Inr (e, rw, dn)
           | Some prey \<Rightarrow>
               (let e1 = e\<lparr>agents := remove1 prey (agents e),
                           grid := (grid e)(target := Empty)\<rparr>;
                    pid = agent_id (objects e1 pr);
                    qid = agent_id (objects e1 prey)
                in case rw pid of
                     None \<Rightarrow> Inl (KeyError pid)
                   | Some v \<Rightarrow>
                       (let rw1 = rw(pid \<mapsto> v + 1)
                        in case rw1 qid of
                             None \<Rightarrow> Inl (KeyError qid)
                           | Some u \<Rightarrow>
                               Inr (e1\<lparr>objects := (objects e1)
                                          (pr := add_health (float_add e1) (objects e1 pr)
                                                  (health_gained e1))\<rparr>,
                                    rw1(qid \<mapsto> u + (- 1)),
                                    dn(qid \<mapsto> True))))))"

fun hunting_loop :: "ref list \<Rightarrow> env \<Rightarrow> rewards \<Rightarrow> dones \<Rightarrow> error + (env \<times> rewards \<times> dones)" where
  "hunting_loop [] e rw dn = Inr (e, rw, dn)"
| "hunting_loop (pr # prs) e rw dn =
     (case hunt pr e rw dn of
        Inl err \<Rightarrow> Inl err
      | Inr (e', rw', dn') \<Rightarrow> hunting_loop prs e' rw' dn')"

definition hunting :: "env \<Rightarrow> rewards \<Rightarrow> dones \<Rightarrow> error + (env \<times> rewards \<times> dones)" where
  "hunting e rw dn = hunting_loop (agents_of Predator e) e rw dn"

section \<open>predator\_hunger\<close>

text \<open>The float written \<^verbatim>\<open>0.01\<close> in the source.\<close>

definition hunger :: real where
  "hunger = 5764607523034235 / 576460752303423488"

fun hunger_loop :: "ref list \<Rightarrow> env \<Rightarrow> dones \<Rightarrow> env \<times> dones" where
  "hunger_loop [] e dn = (e, dn)"
| "hunger_loop (pr # prs) e dn =
     (let e1 = e\<lparr>objects := (objects e)(pr := add_health (float_add e) (objects e pr) (- hunger))\<rparr>
      in if health (objects e1 pr) \<le> 0
         then hunger_loop prs
                (e1\<lparr>agents := remove1 pr (agents e1),
                    grid := (grid e1)(get_position (objects e1 pr) := Empty)\<rparr>)
                (dn(agent_id (objects e1 pr) \<mapsto> True))
         else hunger_loop prs e1 dn)"

definition predator_hunger :: "env \<Rightarrow> dones \<Rightarrow> env \<times> dones" where
  "predator_hunger e dn = hunger_loop (agents_of Predator e) e dn"

section \<open>generate\_new\_agents\<close>

text \<open>Lines 175 to 180: how many agents of a role are added, from the number alive,
  the cap and the factor: \<^verbatim>\<open>max(1, math.ceil(num * p))\<close> below the cap, with the product
  of the floats.\<close>

definition num_new :: "env \<Rightarrow> nat \<Rightarrow> nat \<Rightarrow> real \<Rightarrow> nat" where
  "num_new e n cap p = (if n < cap then nat (max 1 \<lceil>float_mul e (real n) p\<rceil>) else 0)"

text \<open>Lines 183 to 191 and 194 to 202: the id of a new agent is built from the number
  of agents of the role alive at that moment.\<close>

fun spawn :: "role \<Rightarrow> nat \<Rightarrow> env \<Rightarrow> tape \<Rightarrow> (error + env \<times> tape) option" where
  "spawn r 0 e t = Some (Inr (e, t))"
| "spawn r (Suc n) e t =
     (let new_id = prefix_of r @ str (length (agents_of r e)) in
      case find_empty (grid_size e) (grid e) t of
        None \<Rightarrow> None
      | Some (Inl err) \<Rightarrow> Some (Inl err)
      | Some (Inr (p, t')) \<Rightarrow> spawn r n (create_agent new_id r p e) t')"

definition generate_new_agents :: "env \<Rightarrow> real \<Rightarrow> real \<Rightarrow> tape \<Rightarrow> (error + env \<times> tape) option" where
  "generate_new_agents e p_predator p_prey t =
     (let new_predators = num_new e (length (agents_of Predator e)) (max_num_predators e) p_predator;
          new_preys = num_new e (length (agents_of Prey e)) (max_num_preys e) p_prey
      in case spawn Predator new_predators e t of
           None \<Rightarrow> None
         | Some (Inl err) \<Rightarrow> Some (Inl err)
         | Some (Inr (e1, t1)) \<Rightarrow> spawn Prey new_preys e1 t1)"

section \<open>get\_observation and step\<close>

type_synonym observation = "real list list list"

definition layer :: "env \<Rightarrow> pos \<Rightarrow> (cell \<Rightarrow> real) \<Rightarrow> real list list" where
  "layer e p f =
     (let s = predator_scope e in
      map (\<lambda>dx. map (\<lambda>dy. f (grid e (wrap (grid_size e) p dx dy))) [- s..s]) [- s..s])"

definition get_observation :: "env \<Rightarrow> agent \<Rightarrow> observation" where
  "get_observation e a =
     (let p = get_position a in
      [layer e p (\<lambda>c. if c = Wall then 1 else 0),
       layer e p (\<lambda>c. case c of Ref h \<Rightarrow> if role (objects e h) = Predator then 1 else 0 | _ \<Rightarrow> 0),
       layer e p (\<lambda>c. case c of Ref h \<Rightarrow> if role (objects e h) = Prey then 1 else 0 | _ \<Rightarrow> 0),
       layer e p (\<lambda>c. case c of Ref h \<Rightarrow> health (objects e h) | _ \<Rightarrow> 0)])"

text \<open>\<^verbatim>\<open>{agent.id: f(agent) for agent in self.agents}\<close>: a later agent with the same id
  overwrites the entry.\<close>

definition by_id :: "env \<Rightarrow> (agent \<Rightarrow> 'v) \<Rightarrow> (string \<rightharpoonup> 'v)" where
  "by_id e f = fold (\<lambda>h m. m(agent_id (objects e h) \<mapsto> f (objects e h))) (agents e) Map.empty"

record step_result =
  observations :: "string \<rightharpoonup> observation"
  rewards_of :: rewards
  dones_of :: dones
  env_of :: env
  tape_of :: tape

text \<open>The floats written \<^verbatim>\<open>0.003\<close> and \<^verbatim>\<open>0.006\<close> in the source.\<close>

definition p_predator_step :: real where
  "p_predator_step = 3458764513820541 / 1152921504606846976"

definition p_prey_step :: real where
  "p_prey_step = 3458764513820541 / 576460752303423488"

text \<open>\<^verbatim>\<open>step\<close>: move, hunt, hunger, spawn, observe. \<open>None\<close>: a placement loop of the
  spawn phase is still running when the tape ends; \<open>Some (Inl err)\<close>: the call raised.\<close>

definition step :: "env \<Rightarrow> actions \<Rightarrow> tape \<Rightarrow> (error + step_result) option" where
  "step e acts t =
     (let rw = by_id e (\<lambda>_. 0); dn = by_id e (\<lambda>_. False) in
      case agents_move e acts of
        Inl err \<Rightarrow> Some (Inl err)
      | Inr e1 \<Rightarrow>
          (case hunting e1 rw dn of
             Inl err \<Rightarrow> Some (Inl err)
           | Inr (e2, rw2, dn2) \<Rightarrow>
               (let (e3, dn3) = predator_hunger e2 dn2 in
                case generate_new_agents e3 p_predator_step p_prey_step t of
                  None \<Rightarrow> None
                | Some (Inl err) \<Rightarrow> Some (Inl err)
                | Some (Inr (e4, t4)) \<Rightarrow>
                    Some (Inr \<lparr>observations = by_id e4 (get_observation e4),
                               rewards_of = rw2, dones_of = dn3,
                               env_of = e4, tape_of = t4\<rparr>))))"

section \<open>Concrete environments\<close>

text \<open>The state \<^verbatim>\<open>__init__\<close> leaves: no agents, no walls, a grid of zeros, both caps
  at 10000. In the concrete environments the sum and the product of floats are the
  exact ones: the values met there are far from the points where the rounding of the
  machine decides an outcome (the ceiling of a product, the sign of a health).\<close>

definition no_agent :: agent where
  "no_agent = \<lparr>agent_id = [], role = Prey, position = (0, 0), health = 0\<rparr>"

definition init_env :: "int \<times> int \<Rightarrow> nat \<Rightarrow> nat \<Rightarrow> nat \<Rightarrow> int \<Rightarrow> real \<Rightarrow> env" where
  "init_env gs n_predators n_prey n_walls scope gained =
     \<lparr>grid_size = gs, num_predators = n_predators, num_prey = n_prey, num_walls = n_walls,
      predator_scope = scope, health_gained = gained,
      max_num_predators = 10000, max_num_preys = 10000,
      agents = [], walls_positions = [], grid = (\<lambda>_. Empty),
      objects = (\<lambda>_. no_agent), initial_health = 1,
      float_add = (+), float_mul = (*)\<rparr>"

text \<open>A 5 by 5 grid, scope 1, a predator at (2,2) and prey at (2,1) and (1,2).\<close>

definition env_tie :: env where
  "env_tie = (init_env (5, 5) 1 2 0 1 (1 / 2))
     \<lparr>agents := [0, 1, 2],
      grid := (\<lambda>_. Empty)((2, 2) := Ref 0, (2, 1) := Ref 1, (1, 2) := Ref 2),
      objects := (\<lambda>_. no_agent)
        (0 := \<lparr>agent_id = ''pr_0'', role = Predator, position = (2, 2), health = 1\<rparr>,
         1 := \<lparr>agent_id = ''py_0'', role = Prey, position = (2, 1), health = 1\<rparr>,
         2 := \<lparr>agent_id = ''py_1'', role = Prey, position = (1, 2), health = 1\<rparr>)\<rparr>"

text \<open>The same grid with the predator at the corner (0,0) and prey at (4,0) and (0,1):
  the neighbourhood of the predator wraps around the edge.\<close>

definition env_corner :: env where
  "env_corner = (init_env (5, 5) 1 2 0 1 (1 / 2))
     \<lparr>agents := [0, 1, 2],
      grid := (\<lambda>_. Empty)((0, 0) := Ref 0, (4, 0) := Ref 1, (0, 1) := Ref 2),
      objects := (\<lambda>_. no_agent)
        (0 := \<lparr>agent_id = ''pr_0'', role = Predator, position = (0, 0), health = 1\<rparr>,
         1 := \<lparr>agent_id = ''py_0'', role = Prey, position = (4, 0), health = 1\<rparr>,
         2 := \<lparr>agent_id = ''py_1'', role = Prey, position = (0, 1), health = 1\<rparr>)\<rparr>"

text \<open>The positions a placement loop samples from a tape, round by round, on a grid
  of positive dimensions.\<close>

fun samples :: "int \<times> int \<Rightarrow> tape \<Rightarrow> pos list" where
  "samples gs (rx # ry # rs) = (int rx mod fst gs, int ry mod snd gs) # samples gs rs"
| "samples gs rs = []"

text \<open>The cells of the grid.\<close>

definition cells :: "int \<times> int \<Rightarrow> pos list" where
  "cells gs = List.product [0..fst gs - 1] [0..snd gs - 1]"

definition empty_cells :: "env \<Rightarrow> pos list" where
  "empty_cells e = filter (\<lambda>c. grid e c = Empty) (cells (grid_size e))"



text \<open>334 predators in a row of 400 cells, with the cap of the predators set to 335.\<close>

definition env_crowd :: env where
  "env_crowd = (init_env (400, 1) 334 0 0 1 (1 / 2))
     \<lparr>max_num_predators := 335,
      agents := [0..<334],
      grid := (\<lambda>(x, y). if 0 \<le> x \<and> x < 334 \<and> y = 0 then Ref (nat x) else Empty),
      objects := (\<lambda>h. \<lparr>agent_id = ''pr_'' @ str h, role = Predator,
                         position = (int h, 0), health = 1\<rparr>)\<rparr>"

text \<open>A 3 by 3 grid with one prey and no predator.\<close>

definition env_extinct :: env where
  "env_extinct = (init_env (3, 3) 1 1 0 1 (1 / 2))
     \<lparr>agents := [0],
      grid := (\<lambda>_. Empty)((1, 1) := Ref 0),
      objects := (\<lambda>_. no_agent)
        (0 := \<lparr>agent_id = ''py_0'', role = Prey, position = (1, 1), health = 1\<rparr>)\<rparr>"

text \<open>A grid of two cells, each with a prey; no predator is alive.\<close>

definition env_packed :: env where
  "env_packed = (init_env (2, 1) 0 2 0 1 (1 / 2))
     \<lparr>agents := [0, 1],
      grid := (\<lambda>_. Empty)((0, 0) := Ref 0, (1, 0) := Ref 1),
      objects := (\<lambda>_. no_agent)
        (0 := \<lparr>agent_id = ''py_0'', role = Prey, position = (0, 0), health = 1\<rparr>,
         1 := \<lparr>agent_id = ''py_1'', role = Prey, position = (1, 0), health = 1\<rparr>)\<rparr>"

section \<open>Notions used in the properties\<close>

text \<open>The ids of the live agents.\<close>

definition ids :: "env \<Rightarrow> string set" where
  "ids e = (\<lambda>h. agent_id (objects e h)) ` set (agents e)"

text \<open>The cells of the grid that hold an agent.\<close>

definition agent_cells :: "env \<Rightarrow> pos list" where
  "agent_cells e =
     filter (\<lambda>c. case grid e c of Ref h \<Rightarrow> True | _ \<Rightarrow> False) (cells (grid_size e))"

text \<open>A sequence of \<^verbatim>\<open>step\<close> calls, each with its actions and its stretch of the random
  tape; \<open>None\<close> when a call raises or does not return.\<close>

fun run :: "env \<Rightarrow> (actions \<times> tape) list \<Rightarrow> env option" where
  "run e [] = Some e"
| "run e ((acts, t) # rest) =
     (case step e acts t of
        Some (Inr r) \<Rightarrow> run (env_of r) rest
      | _ \<Rightarrow> None)"

text \<open>The wall cells of the grid are the positions of the wall list, and no live agent
  stands on one of them.\<close>

definition walls_ok :: "env \<Rightarrow> bool" where
  "walls_ok e =
     ((\<forall>c. (grid e c = Wall) = (c \<in> set (walls_positions e))) \<and>
      (\<forall>h \<in> set (agents e). get_position (objects e h) \<notin> set (walls_positions e)))"

text \<open>What hunting and hunger leave as it is: no agent joins the registry, no agent
  changes its id, role or position, and the walls and the settings stay.\<close>

definition unchanged :: "env \<Rightarrow> env \<Rightarrow> bool" where
  "unchanged e e' =
     (set (agents e') \<subseteq> set (agents e) \<and>
      (\<forall>h. agent_id (objects e' h) = agent_id (objects e h)) \<and>
      (\<forall>h. role (objects e' h) = role (objects e h)) \<and>
      (\<forall>h. get_position (objects e' h) = get_position (objects e h)) \<and>
      walls_positions e' = walls_positions e \<and> grid_size e' = grid_size e \<and>
      max_num_predators e' = max_num_predators e \<and> max_num_preys e' = max_num_preys e)"

section \<open>More concrete environments\<close>

text \<open>A 3 by 3 grid without walls, a predator at (0,0) and a prey at (0,2); the predator
  is told to go right and the prey to go left, both to the empty cell (0,1).\<close>

definition env_conflict :: env where
  "env_conflict = (init_env (3, 3) 1 1 0 1 (1 / 2))
     \<lparr>agents := [0, 1],
      grid := (\<lambda>_. Empty)((0, 0) := Ref 0, (0, 2) := Ref 1),
      objects := (\<lambda>_. no_agent)
        (0 := \<lparr>agent_id = ''pr_0'', role = Predator, position = (0, 0), health = 1\<rparr>,
         1 := \<lparr>agent_id = ''py_0'', role = Prey, position = (0, 2), health = 1\<rparr>)\<rparr>"

definition acts_conflict :: actions where
  "acts_conflict = [''pr_0'' \<mapsto> 4, ''py_0'' \<mapsto> 3]"

text \<open>A 5 by 5 grid as \<^verbatim>\<open>reset\<close> leaves it with one predator and two prey: the predator
  \<^verbatim>\<open>pr_0\<close> at (2,2), the prey \<^verbatim>\<open>py_0\<close> next to it at (1,2), the prey \<^verbatim>\<open>py_1\<close> far away at
  (4,4). Every agent is told to stay.\<close>

definition env_kill :: env where
  "env_kill = (init_env (5, 5) 1 2 0 1 (1 / 2))
     \<lparr>agents := [0, 1, 2],
      grid := (\<lambda>_. Empty)((2, 2) := Ref 0, (1, 2) := Ref 1, (4, 4) := Ref 2),
      objects := (\<lambda>_. no_agent)
        (0 := \<lparr>agent_id = ''pr_0'', role = Predator, position = (2, 2), health = 1\<rparr>,
         1 := \<lparr>agent_id = ''py_0'', role = Prey, position = (1, 2), health = 1\<rparr>,
         2 := \<lparr>agent_id = ''py_1'', role = Prey, position = (4, 4), health = 1\<rparr>)\<rparr>"

definition acts_stay :: actions where
  "acts_stay = [''pr_0'' \<mapsto> 0, ''py_0'' \<mapsto> 0, ''py_1'' \<mapsto> 0]"

definition acts_stay2 :: actions where
  "acts_stay2 = [''pr_0'' \<mapsto> 0, ''pr_1'' \<mapsto> 0, ''py_1'' \<mapsto> 0]"

text \<open>A grid of width 3 and height 5 with one predator at (0,0), told to go up; the
  same with a wall on the cell (2,0) it would go to.\<close>

definition env_edge :: env where
  "env_edge = (init_env (3, 5) 1 0 0 1 (1 / 2))
     \<lparr>agents := [0],
      grid := (\<lambda>_. Empty)((0, 0) := Ref 0),
      objects := (\<lambda>_. no_agent)
        (0 := \<lparr>agent_id = ''pr_0'', role = Predator, position = (0, 0), health = 1\<rparr>)\<rparr>"

definition env_edge_wall :: env where
  "env_edge_wall = env_edge
     \<lparr>walls_positions := [(2, 0)],
      grid := (\<lambda>_. Empty)((2, 0) := Wall, (0, 0) := Ref 0)\<rparr>"

definition acts_up :: actions where
  "acts_up = [''pr_0'' \<mapsto> 1]"

text \<open>A 4 by 4 grid with two prey of the same id \<^verbatim>\<open>py_1\<close>, at (3,0) and at (1,1), told to
  go down.\<close>

definition env_twins :: env where
  "env_twins = (init_env (4, 4) 0 2 0 1 (1 / 2))
     \<lparr>agents := [0, 1],
      grid := (\<lambda>_. Empty)((3, 0) := Ref 0, (1, 1) := Ref 1),
      objects := (\<lambda>_. no_agent)
        (0 := \<lparr>agent_id = ''py_1'', role = Prey, position = (3, 0), health = 1\<rparr>,
         1 := \<lparr>agent_id = ''py_1'', role = Prey, position = (1, 1), health = 1\<rparr>)\<rparr>"

definition acts_down :: actions where
  "acts_down = [''py_1'' \<mapsto> 2]"

text \<open>The actions of the runs below: everybody stays.\<close>

definition acts_stay3 :: actions where
  "acts_stay3 = [''pr_0'' \<mapsto> 0, ''pr_1'' \<mapsto> 0, ''py_0'' \<mapsto> 0]"

definition acts_stay1 :: actions where
  "acts_stay1 = [''pr_0'' \<mapsto> 0]"

section \<open>Nearest prey\<close>

lemma hd_sort_least:
  fixes xs :: "'a::linorder list"
  assumes "xs \<noteq> []"
  shows "hd (sort xs) \<in> set xs \<and> (\<forall>x \<in> set xs. hd (sort xs) \<le> x)"
proof -
  have "sort xs \<noteq> []" using assms by (metis length_0_conv length_sort)
  then obtain y ys where s: "sort xs = y # ys" by (cases "sort xs") auto
  have "sorted (y # ys)" using s sorted_sort by metis
  then have "\<forall>x \<in> set (y # ys). y \<le> x" by auto
  moreover have "set (y # ys) = set xs" using s by (metis set_sort)
  ultimately show ?thesis using s by auto
qed

lemma sorted_wrt_concat_map:
  assumes "sorted_wrt Q xs"
    and "\<And>x. x \<in> set xs \<Longrightarrow> sorted_wrt R (f x)"
    and "\<And>x y a b. Q x y \<Longrightarrow> x \<in> set xs \<Longrightarrow> y \<in> set xs \<Longrightarrow>
           a \<in> set (f x) \<Longrightarrow> b \<in> set (f y) \<Longrightarrow> R a b"
  shows "sorted_wrt R (concat (map f xs))"
  using assms
proof (induction xs)
  case Nil
  then show ?case by simp
next
  case (Cons x xs)
  have "sorted_wrt R (concat (map f xs))"
    using Cons by auto
  moreover have "sorted_wrt R (f x)" using Cons.prems by simp
  moreover have "\<forall>a \<in> set (f x). \<forall>b \<in> set (concat (map f xs)). R a b"
    using Cons.prems by auto
  ultimately show ?case by (simp add: sorted_wrt_append)
qed

text \<open>When the window of the predator lies inside the grid, the scan meets the cells in
  ascending order of position.\<close>

lemma prey_in_scope_positions_sorted:
  assumes "predator_scope e \<le> fst p" "fst p + predator_scope e < fst (grid_size e)"
    and "predator_scope e \<le> snd p" "snd p + predator_scope e < snd (grid_size e)"
  shows "sorted_wrt (<) (map snd (prey_in_scope e p))"
proof -
  let ?s = "predator_scope e"
  have w: "\<And>dx dy. dx \<in> set [- ?s..?s] \<Longrightarrow> dy \<in> set [- ?s..?s] \<Longrightarrow>
             wrap (grid_size e) p dx dy = (fst p + dx, snd p + dy)"
    using assms by (auto simp: wrap_def)
  let ?inner = "\<lambda>dx dy. if \<not> (dx = 0 \<and> dy = 0) then
                   (if is_prey_cell e (wrap (grid_size e) p dx dy)
                    then [wrap (grid_size e) p dx dy] else []) else []"
  have eq: "map snd (prey_in_scope e p) =
        concat (map (\<lambda>dx. concat (map (?inner dx) [- ?s..?s])) [- ?s..?s])"
    by (simp add: prey_in_scope_def Let_def map_concat comp_def if_distrib[of "map snd"] cong: if_cong)
  have in_set: "\<And>dx a. dx \<in> set [- ?s..?s] \<Longrightarrow> a \<in> set (concat (map (?inner dx) [- ?s..?s]))
      \<Longrightarrow> fst a = fst p + dx"
    using w by (auto split: if_splits)
  have inner_sorted: "\<And>dx. dx \<in> set [- ?s..?s] \<Longrightarrow>
      sorted_wrt (<) (concat (map (?inner dx) [- ?s..?s]))"
  proof -
    fix dx assume dx: "dx \<in> set [- ?s..?s]"
    show "sorted_wrt (<) (concat (map (?inner dx) [- ?s..?s]))"
    proof (rule sorted_wrt_concat_map[where Q = "(<)"])
      show "sorted_wrt (<) [- ?s..?s]" by simp
    next
      fix dy assume "dy \<in> set [- ?s..?s]"
      show "sorted_wrt (<) (?inner dx dy)" by simp
    next
      fix x y :: int and a b :: pos
      assume "x < y" "x \<in> set [- ?s..?s]" "y \<in> set [- ?s..?s]"
        "a \<in> set (?inner dx x)" "b \<in> set (?inner dx y)"
      then have "a = (fst p + dx, snd p + x)" "b = (fst p + dx, snd p + y)"
        using w[OF dx] by (auto split: if_splits)
      with \<open>x < y\<close> show "a < b" by (simp add: less_prod_def)
    qed
  qed
  have "sorted_wrt (<) (concat (map (\<lambda>dx. concat (map (?inner dx) [- ?s..?s])) [- ?s..?s]))"
  proof (rule sorted_wrt_concat_map[where Q = "(<)"])
    show "sorted_wrt (<) [- ?s..?s]" by simp
  next
    fix dx assume "dx \<in> set [- ?s..?s]"
    then show "sorted_wrt (<) (concat (map (?inner dx) [- ?s..?s]))" by (rule inner_sorted)
  next
    fix x y :: int and a b :: pos
    assume "x < y" "x \<in> set [- ?s..?s]" "y \<in> set [- ?s..?s]"
      "a \<in> set (concat (map (?inner x) [- ?s..?s]))" "b \<in> set (concat (map (?inner y) [- ?s..?s]))"
    then have "fst a = fst p + x" "fst b = fst p + y" using in_set by blast+
    with \<open>x < y\<close> show "a < b" by (simp add: less_prod_def)
  qed
  with eq show ?thesis by simp
qed

lemma find_first_least:
  fixes xs :: "(int \<times> pos) list"
  assumes "sorted_wrt (<) (map snd xs)" and "m \<in> set xs" and "\<forall>x \<in> set xs. m \<le> x"
  shows "find (\<lambda>x. fst x = fst m) xs = Some m"
  using assms
proof (induction xs)
  case Nil
  then show ?case by simp
next
  case (Cons x xs)
  show ?case
  proof (cases "fst x = fst m")
    case True
    have "m \<le> x" using Cons.prems by simp
    with True have le: "snd m \<le> snd x" by (auto simp: less_eq_prod_def)
    have "x = m"
    proof (cases "m = x")
      case True then show ?thesis by simp
    next
      case False
      then have "m \<in> set xs" using Cons.prems by simp
      then have "snd x < snd m" using Cons.prems(1) by auto
      with le show ?thesis by simp
    qed
    with True show ?thesis by simp
  next
    case False
    then have "m \<in> set xs" using Cons.prems by auto
    moreover have "sorted_wrt (<) (map snd xs)" using Cons.prems by simp
    ultimately have "find (\<lambda>x. fst x = fst m) xs = Some m" using Cons by simp
    with False show ?thesis by simp
  qed
qed

text \<open>
  Claim C3, as amended. A predator with at least one prey in its neighbourhood selects an
  entry \<open>(d, t)\<close> of its scan list with the least Manhattan distance \<open>d\<close>; among the
  entries of that distance the selected position \<open>t\<close> is the least one, positions
  \<open>(nx, ny)\<close> compared first by \<open>nx\<close> and then by \<open>ny\<close>. When the neighbourhood lies inside
  the grid (no offset wraps around an edge) this is the first entry of least distance
  in the scan order.
\<close>

theorem nearest_prey_selected:
  assumes "prey_in_scope e p \<noteq> []"
  shows "\<exists>d t. target_prey_pos e p = Some t \<and> (d, t) \<in> set (prey_in_scope e p) \<and>
           (\<forall>(d', t') \<in> set (prey_in_scope e p).
               d \<le> d' \<and> (d = d' \<longrightarrow> fst t < fst t' \<or> (fst t = fst t' \<and> snd t \<le> snd t'))) \<and>
           (predator_scope e \<le> fst p \<and> fst p + predator_scope e < fst (grid_size e) \<and>
            predator_scope e \<le> snd p \<and> snd p + predator_scope e < snd (grid_size e) \<longrightarrow>
              find (\<lambda>x. fst x = d) (prey_in_scope e p) = Some (d, t))"
proof -
  let ?ps = "prey_in_scope e p"
  obtain d t where m: "hd (sort ?ps) = (d, t)" by (cases "hd (sort ?ps)")
  have tp: "target_prey_pos e p = Some t"
    using assms m by (simp add: target_prey_pos_def Let_def)
  have mem: "(d, t) \<in> set ?ps" using hd_sort_least[OF assms] m by simp
  have least: "\<forall>x \<in> set ?ps. (d, t) \<le> x" using hd_sort_least[OF assms] m by simp
  have ord: "\<forall>(d', t') \<in> set ?ps.
      d \<le> d' \<and> (d = d' \<longrightarrow> fst t < fst t' \<or> (fst t = fst t' \<and> snd t \<le> snd t'))"
  proof (clarify)
    fix d' a b assume "(d', (a, b)) \<in> set ?ps"
    then have "(d, t) \<le> (d', (a, b))" using least by blast
    then show "d \<le> d' \<and> (d = d' \<longrightarrow> fst t < fst (a, b) \<or> (fst t = fst (a, b) \<and> snd t \<le> snd (a, b)))"
      by (cases t) (auto simp: less_eq_prod_def less_prod_def)
  qed
  have scan: "predator_scope e \<le> fst p \<and> fst p + predator_scope e < fst (grid_size e) \<and>
            predator_scope e \<le> snd p \<and> snd p + predator_scope e < snd (grid_size e) \<longrightarrow>
              find (\<lambda>x. fst x = d) ?ps = Some (d, t)"
  proof
    assume "predator_scope e \<le> fst p \<and> fst p + predator_scope e < fst (grid_size e) \<and>
            predator_scope e \<le> snd p \<and> snd p + predator_scope e < snd (grid_size e)"
    then have "sorted_wrt (<) (map snd ?ps)" by (simp add: prey_in_scope_positions_sorted)
    from find_first_least[OF this mem least] show "find (\<lambda>x. fst x = d) ?ps = Some (d, t)" by simp
  qed
  from tp mem ord scan show ?thesis by blast
qed

lemma prey_in_scope_env_tie: "prey_in_scope env_tie (2, 2) = [(1, (1, 2)), (1, (2, 1))]"
  by (simp add: env_tie_def init_env_def prey_in_scope_def wrap_def is_prey_cell_def upto.simps)

lemma prey_in_scope_env_corner: "prey_in_scope env_corner (0, 0) = [(1, (4, 0)), (1, (0, 1))]"
  by (simp add: env_corner_def init_env_def prey_in_scope_def wrap_def is_prey_cell_def upto.simps)

text \<open>The example of the spec: the predator at (2,2) with scope 1 and prey at (1,2) and
  (2,1), both at distance 1, selects (1,2), which is also the first in the scan order.\<close>

theorem nearest_prey_selected_witness:
  "prey_in_scope env_tie (2, 2) \<noteq> [] \<and>
   target_prey_pos env_tie (2, 2) = Some (1, 2) \<and>
   find (\<lambda>x. fst x = 1) (prey_in_scope env_tie (2, 2)) = Some (1, (1, 2)) \<and>
   (\<exists>d t. target_prey_pos env_tie (2, 2) = Some t \<and> (d, t) \<in> set (prey_in_scope env_tie (2, 2)))"
proof -
  have ne: "prey_in_scope env_tie (2, 2) \<noteq> []" by (simp add: prey_in_scope_env_tie)
  from nearest_prey_selected [OF ne]
  have ex: "\<exists>d t. target_prey_pos env_tie (2, 2) = Some t \<and> (d, t) \<in> set (prey_in_scope env_tie (2, 2))"
    by blast
  have "target_prey_pos env_tie (2, 2) = Some (1, 2)"
    by (simp add: target_prey_pos_def prey_in_scope_env_tie)
  with ne ex show ?thesis by (simp add: prey_in_scope_env_tie)
qed

text \<open>Claim C3 as the spec states it fails where the neighbourhood wraps: for the
  predator at (0,0) the scan meets the prey at (4,0) (offset \<open>dx = -1\<close>) before the prey
  at (0,1) (offset \<open>dx = 0\<close>), both at distance 1, and the code selects (0,1).\<close>

theorem scan_order_counterexample:
  "prey_in_scope env_corner (0, 0) = [(1, (4, 0)), (1, (0, 1))] \<and>
   target_prey_pos env_corner (0, 0) = Some (0, 1)"
  by (simp add: target_prey_pos_def prey_in_scope_env_corner less_eq_prod_def)

section \<open>Random placement\<close>

lemma randint_pos: "0 < w \<Longrightarrow> randint 0 (w - 1) r = Inr (int r mod w)"
  by (simp add: randint_def)

lemma randint_empty: "w \<le> 0 \<Longrightarrow> randint 0 (w - 1) r = Inl ValueError"
  by (simp add: randint_def)


lemma find_empty_None:
  "0 < fst gs \<Longrightarrow> 0 < snd gs \<Longrightarrow>
     (find_empty gs g t = None) = (\<forall>p \<in> set (samples gs t). g p \<noteq> Empty)"
  by (induction gs g t rule: find_empty.induct) (simp_all add: randint_pos)

lemma find_empty_Some:
  "0 < fst gs \<Longrightarrow> 0 < snd gs \<Longrightarrow> find_empty gs g t = Some (Inr (p, t')) \<Longrightarrow>
     find (\<lambda>p. g p = Empty) (samples gs t) = Some p"
  by (induction gs g t rule: find_empty.induct) (auto simp: randint_pos split: if_splits)

lemma find_empty_cell:
  "find_empty gs g t = Some (Inr (p, t')) \<Longrightarrow> g p = Empty"
  by (induction gs g t rule: find_empty.induct) (auto split: sum.splits if_splits)

lemma find_empty_raises:
  "fst gs \<le> 0 \<Longrightarrow> find_empty gs g t = Some (Inl ValueError)"
  by (induction gs g t rule: find_empty.induct) (simp_all add: randint_empty)

lemma find_empty_raises2:
  "snd gs \<le> 0 \<Longrightarrow> t \<noteq> [] \<Longrightarrow> find_empty gs g t = Some (Inl ValueError)"
  by (cases "(gs, g, t)" rule: find_empty.cases)
     (auto simp: randint_def split: sum.splits)

lemma samples_in_grid:
  "0 < fst gs \<Longrightarrow> 0 < snd gs \<Longrightarrow> p \<in> set (samples gs t) \<Longrightarrow>
     0 \<le> fst p \<and> fst p < fst gs \<and> 0 \<le> snd p \<and> snd p < snd gs"
  by (induction gs t rule: samples.induct) auto

lemma find_empty_full:
  assumes "0 < fst gs" "0 < snd gs"
    and "\<And>x y. 0 \<le> x \<Longrightarrow> x < fst gs \<Longrightarrow> 0 \<le> y \<Longrightarrow> y < snd gs \<Longrightarrow> g (x, y) \<noteq> Empty"
  shows "find_empty gs g t = None"
proof -
  have "\<forall>p \<in> set (samples gs t). g p \<noteq> Empty"
  proof
    fix p assume "p \<in> set (samples gs t)"
    from samples_in_grid[OF assms(1,2) this] assms(3)[of "fst p" "snd p"]
    show "g p \<noteq> Empty" by simp
  qed
  then show ?thesis by (simp add: find_empty_None[OF assms(1,2)])
qed




section \<open>Spawning\<close>

lemma le_fold_max: "h \<in> set xs \<Longrightarrow> h \<le> fold max xs (a::nat)"
proof (induction xs arbitrary: a)
  case Nil
  then show ?case by simp
next
  case (Cons x xs)
  have mono: "\<And>b. b \<le> fold max xs b"
  proof -
    fix b show "b \<le> fold max xs b"
      by (induction xs arbitrary: b) (auto intro: order_trans[OF max.cobounded2])
  qed
  show ?case
  proof (cases "h = x")
    case True
    have "x \<le> max x a" by simp
    also have "\<dots> \<le> fold max xs (max x a)" by (rule mono)
    finally show ?thesis using True by simp
  next
    case False
    then have "h \<in> set xs" using Cons.prems by simp
    then show ?thesis using Cons.IH by simp
  qed
qed

lemma new_ref_fresh: "new_ref e \<notin> set (agents e)"
proof
  assume "new_ref e \<in> set (agents e)"
  then have "new_ref e \<le> fold max (agents e) 0" by (rule le_fold_max)
  then show False by (simp add: new_ref_def)
qed

lemma agents_of_create_agent:
  "agents_of r' (create_agent i r p e) = agents_of r' e @ (if r' = r then [new_ref e] else [])"
proof -
  have "filter (is_role (create_agent i r p e) r') (agents e) = filter (is_role e r') (agents e)"
    by (rule filter_cong)
      (use new_ref_fresh[of e] in \<open>auto simp: is_role_def create_agent_def Let_def\<close>)
  moreover have "is_role (create_agent i r p e) r' (new_ref e) = (r' = r)"
    by (auto simp: is_role_def create_agent_def Let_def)
  moreover have "agents (create_agent i r p e) = agents e @ [new_ref e]"
    by (simp add: create_agent_def Let_def)
  ultimately show ?thesis by (simp add: agents_of_def)
qed

lemma create_agent_frame [simp]:
  "grid_size (create_agent i r p e) = grid_size e"
  "max_num_predators (create_agent i r p e) = max_num_predators e"
  "max_num_preys (create_agent i r p e) = max_num_preys e"
  "walls_positions (create_agent i r p e) = walls_positions e"
  "float_mul (create_agent i r p e) = float_mul e"
  "float_add (create_agent i r p e) = float_add e"
  "grid (create_agent i r p e) = (grid e)(p := Ref (new_ref e))"
  by (simp_all add: create_agent_def Let_def)

lemma distinct_cells: "distinct (cells gs)"
  by (simp add: cells_def distinct_product)

lemma set_cells:
  "set (cells gs) = {(x, y). 0 \<le> x \<and> x < fst gs \<and> 0 \<le> y \<and> y < snd gs}"
  by (auto simp: cells_def)

lemma empty_cells_create_agent:
  assumes "c \<in> set (empty_cells e)"
  shows "Suc (length (empty_cells (create_agent i r c e))) = length (empty_cells e)"
proof -
  have "empty_cells (create_agent i r c e) =
          filter (\<lambda>c'. c' \<noteq> c) (empty_cells e)"
    by (auto simp: empty_cells_def intro: filter_cong)
  also have "\<dots> = remove1 c (empty_cells e)"
    using distinct_cells[of "grid_size e"]
    by (simp add: empty_cells_def distinct_remove1_removeAll removeAll_filter_not_eq)
       (rule filter_cong, auto)
  finally show ?thesis using assms by (simp add: length_remove1) (metis Suc_pred length_pos_if_in_set)
qed

text \<open>A search that returns has found an empty cell of the grid.\<close>

lemma find_empty_in_empty_cells:
  assumes "find_empty (grid_size e) (grid e) t = Some (Inr (p, t'))"
  shows "p \<in> set (empty_cells e)"
proof -
  have pos: "0 < fst (grid_size e) \<and> 0 < snd (grid_size e)"
  proof (rule ccontr)
    assume "\<not> (0 < fst (grid_size e) \<and> 0 < snd (grid_size e))"
    then have "fst (grid_size e) \<le> 0 \<or> snd (grid_size e) \<le> 0" by auto
    moreover have "t \<noteq> []" using assms by (auto split: if_splits)
    ultimately have "find_empty (grid_size e) (grid e) t = Some (Inl ValueError)"
      using find_empty_raises find_empty_raises2 by blast
    with assms show False by simp
  qed
  then have "find (\<lambda>p. grid e p = Empty) (samples (grid_size e) t) = Some p"
    using find_empty_Some[OF _ _ assms] by simp
  then obtain i where "i < length (samples (grid_size e) t)" "p = samples (grid_size e) t ! i"
    by (auto simp: find_Some_iff)
  then have "p \<in> set (samples (grid_size e) t)" by simp
  from samples_in_grid[OF _ _ this] pos
  have "p \<in> set (cells (grid_size e))" by (cases p) (simp add: set_cells)
  with find_empty_cell[OF assms] show ?thesis by (simp add: empty_cells_def)
qed

text \<open>A spawn loop that returns has added its agents, each on a cell that was empty.\<close>

lemma spawn_count:
  "spawn r n e t = Some (Inr (e', t')) \<Longrightarrow>
     length (agents_of r' e') = length (agents_of r' e) + (if r' = r then n else 0) \<and>
     length (empty_cells e') + n = length (empty_cells e) \<and>
     max_num_predators e' = max_num_predators e \<and> max_num_preys e' = max_num_preys e \<and>
     float_mul e' = float_mul e"
proof (induction n arbitrary: e t)
  case 0
  then show ?case by simp
next
  case (Suc n)
  let ?e1 = "\<lambda>p. create_agent (prefix_of r @ str (length (agents_of r e))) r p e"
  from Suc.prems obtain p t1 where
    f: "find_empty (grid_size e) (grid e) t = Some (Inr (p, t1))" and
    s: "spawn r n (?e1 p) t1 = Some (Inr (e', t'))"
    by (auto simp: Let_def split: option.splits sum.splits)
  have "Suc (length (empty_cells (?e1 p))) = length (empty_cells e)"
    by (rule empty_cells_create_agent[OF find_empty_in_empty_cells[OF f]])
  with Suc.IH[OF s] show ?case by (simp add: agents_of_create_agent)
qed

lemma find_empty_hit:
  assumes "c \<in> set (empty_cells e)"
  shows "find_empty (grid_size e) (grid e) ([nat (fst c), nat (snd c)] @ t2) = Some (Inr (c, t2))"
proof -
  from assms have g: "grid e c = Empty" and r: "0 \<le> fst c" "fst c < fst (grid_size e)"
    "0 \<le> snd c" "snd c < snd (grid_size e)"
    by (auto simp: empty_cells_def set_cells)
  have "randint 0 (fst (grid_size e) - 1) (nat (fst c)) = Inr (fst c)"
       "randint 0 (snd (grid_size e) - 1) (nat (snd c)) = Inr (snd c)"
    using r by (simp_all add: randint_def)
  with g show ?thesis by simp
qed

text \<open>With room for them on the grid, some random sequence lets a spawn loop place all
  its agents.\<close>

lemma spawn_returns:
  "n \<le> length (empty_cells e) \<Longrightarrow>
     \<exists>t e'. (\<forall>t2. spawn r n e (t @ t2) = Some (Inr (e', t2))) \<and>
            length (empty_cells e') + n = length (empty_cells e)"
proof (induction n arbitrary: e)
  case 0
  have "\<forall>t2. spawn r 0 e ([] @ t2) = Some (Inr (e, t2))" by simp
  then show ?case by (metis add.right_neutral)
next
  case (Suc n)
  then have "empty_cells e \<noteq> []" by auto
  then obtain c where c: "c \<in> set (empty_cells e)" by (cases "empty_cells e") auto
  let ?e1 = "create_agent (prefix_of r @ str (length (agents_of r e))) r c e"
  have len: "Suc (length (empty_cells ?e1)) = length (empty_cells e)"
    by (rule empty_cells_create_agent[OF c])
  with Suc.prems have "n \<le> length (empty_cells ?e1)" by simp
  from Suc.IH[OF this] obtain t1 e' where
    ih: "\<forall>t2. spawn r n ?e1 (t1 @ t2) = Some (Inr (e', t2))"
      "length (empty_cells e') + n = length (empty_cells ?e1)" by blast
  have "\<forall>t2. spawn r (Suc n) e (([nat (fst c), nat (snd c)] @ t1) @ t2) = Some (Inr (e', t2))"
  proof
    fix t2
    have "find_empty (grid_size e) (grid e) ([nat (fst c), nat (snd c)] @ (t1 @ t2))
            = Some (Inr (c, t1 @ t2))"
      by (rule find_empty_hit[OF c])
    then show "spawn r (Suc n) e (([nat (fst c), nat (snd c)] @ t1) @ t2) = Some (Inr (e', t2))"
      using ih(1) by (simp add: Let_def)
  qed
  moreover have "length (empty_cells e') + Suc n = length (empty_cells e)"
    using ih(2) len by simp
  ultimately show ?case by blast
qed

lemma generate_count:
  assumes "generate_new_agents e pp py t = Some (Inr (e', t'))"
  shows "length (agents_of Predator e') = length (agents_of Predator e) +
           num_new e (length (agents_of Predator e)) (max_num_predators e) pp"
    and "length (agents_of Prey e') = length (agents_of Prey e) +
           num_new e (length (agents_of Prey e)) (max_num_preys e) py"
    and "num_new e (length (agents_of Predator e)) (max_num_predators e) pp +
         num_new e (length (agents_of Prey e)) (max_num_preys e) py \<le> length (empty_cells e)"
proof -
  from assms obtain e1 t1 where
    s1: "spawn Predator (num_new e (length (agents_of Predator e)) (max_num_predators e) pp) e t
           = Some (Inr (e1, t1))" and
    s2: "spawn Prey (num_new e (length (agents_of Prey e)) (max_num_preys e) py) e1 t1
           = Some (Inr (e', t'))"
    by (auto simp: generate_new_agents_def Let_def split: option.splits sum.splits)
  from spawn_count[OF s1, of Predator] spawn_count[OF s2, of Predator]
  show "length (agents_of Predator e') = length (agents_of Predator e) +
           num_new e (length (agents_of Predator e)) (max_num_predators e) pp" by simp
  from spawn_count[OF s1, of Prey] spawn_count[OF s2, of Prey]
  show "length (agents_of Prey e') = length (agents_of Prey e) +
           num_new e (length (agents_of Prey e)) (max_num_preys e) py" by simp
  from spawn_count[OF s1, of Prey] spawn_count[OF s2, of Prey]
  show "num_new e (length (agents_of Predator e)) (max_num_predators e) pp +
         num_new e (length (agents_of Prey e)) (max_num_preys e) py \<le> length (empty_cells e)"
    by simp
qed

lemma generate_new_agents_returns:
  assumes "num_new e (length (agents_of Predator e)) (max_num_predators e) pp +
           num_new e (length (agents_of Prey e)) (max_num_preys e) py \<le> length (empty_cells e)"
  shows "\<exists>t e' t'. generate_new_agents e pp py t = Some (Inr (e', t'))"
proof -
  let ?np = "num_new e (length (agents_of Predator e)) (max_num_predators e) pp"
  let ?ny = "num_new e (length (agents_of Prey e)) (max_num_preys e) py"
  from assms have "?np \<le> length (empty_cells e)" by simp
  from spawn_returns[OF this, of Predator] obtain t1 e1 where
    s1: "\<forall>t2. spawn Predator ?np e (t1 @ t2) = Some (Inr (e1, t2))"
      and l1: "length (empty_cells e1) + ?np = length (empty_cells e)" by blast
  from assms l1 have "?ny \<le> length (empty_cells e1)" by simp
  from spawn_returns[OF this, of Prey] obtain t2 e2 where
    s2: "\<forall>t3. spawn Prey ?ny e1 (t2 @ t3) = Some (Inr (e2, t3))" by blast
  from s2 have "spawn Prey ?ny e1 (t2 @ []) = Some (Inr (e2, []))" by blast
  moreover from s1 have "spawn Predator ?np e (t1 @ t2) = Some (Inr (e1, t2))" by blast
  ultimately have "generate_new_agents e pp py (t1 @ t2) = Some (Inr (e2, []))"
    by (simp add: generate_new_agents_def Let_def)
  then show ?thesis by blast
qed

text \<open>
  Claim C4, as amended. The cap gates the spawn of a role and does not clamp it. A spawn
  phase that returns has left a role alone whose count before the spawn was at or above
  its cap, and has added \<open>max(1, ceil(n * p))\<close> agents, the product taken by the machine,
  to a role whose count \<open>n\<close> was below the cap, whatever the distance to the cap: the
  count after the spawn is \<open>n + max(1, ceil(n * p))\<close> and can pass the cap. The phase
  returns, for some random sequence, exactly when the grid has as many empty cells as
  the two roles are to get agents.
\<close>

theorem spawn_gated_by_cap:
  "(generate_new_agents e p_predator p_prey t = Some (Inr (e', t')) \<longrightarrow>
      length (agents_of Predator e') =
        (if length (agents_of Predator e) < max_num_predators e
         then length (agents_of Predator e) +
                nat (max 1 \<lceil>float_mul e (real (length (agents_of Predator e))) p_predator\<rceil>)
         else length (agents_of Predator e)) \<and>
      length (agents_of Prey e') =
        (if length (agents_of Prey e) < max_num_preys e
         then length (agents_of Prey e) +
                nat (max 1 \<lceil>float_mul e (real (length (agents_of Prey e))) p_prey\<rceil>)
         else length (agents_of Prey e))) \<and>
   ((\<exists>t1 e1 t1'. generate_new_agents e p_predator p_prey t1 = Some (Inr (e1, t1'))) =
      (num_new e (length (agents_of Predator e)) (max_num_predators e) p_predator +
       num_new e (length (agents_of Prey e)) (max_num_preys e) p_prey
         \<le> length (empty_cells e)))"
proof (rule conjI)
  show "generate_new_agents e p_predator p_prey t = Some (Inr (e', t')) \<longrightarrow>
      length (agents_of Predator e') =
        (if length (agents_of Predator e) < max_num_predators e
         then length (agents_of Predator e) +
                nat (max 1 \<lceil>float_mul e (real (length (agents_of Predator e))) p_predator\<rceil>)
         else length (agents_of Predator e)) \<and>
      length (agents_of Prey e') =
        (if length (agents_of Prey e) < max_num_preys e
         then length (agents_of Prey e) +
                nat (max 1 \<lceil>float_mul e (real (length (agents_of Prey e))) p_prey\<rceil>)
         else length (agents_of Prey e))"
    using generate_count(1,2)[of e p_predator p_prey t e' t'] by (simp add: num_new_def)
next
  show "(\<exists>t1 e1 t1'. generate_new_agents e p_predator p_prey t1 = Some (Inr (e1, t1'))) =
      (num_new e (length (agents_of Predator e)) (max_num_predators e) p_predator +
       num_new e (length (agents_of Prey e)) (max_num_preys e) p_prey
         \<le> length (empty_cells e))"
    using generate_count(3)[of e p_predator p_prey] generate_new_agents_returns[of e p_predator p_prey]
    by blast
qed

lemma crowd_facts:
  "agents_of Predator env_crowd = [0..<334]" "agents_of Prey env_crowd = []"
  "max_num_predators env_crowd = 335" "max_num_preys env_crowd = 10000"
  "float_mul env_crowd = (*)" "grid_size env_crowd = (400, 1)"
  "grid env_crowd = (\<lambda>(x, y). if 0 \<le> x \<and> x < 334 \<and> y = 0 then Ref (nat x) else Empty)"
  by (simp_all add: agents_of_def env_crowd_def init_env_def is_role_def)

lemma crowd_num_new:
  "num_new env_crowd 334 335 p_predator_step = Suc (Suc 0)"
  "num_new env_crowd 0 10000 p_prey_step = Suc 0"
  by (simp_all add: num_new_def crowd_facts p_predator_step_def p_prey_step_def)

lemma crowd_returns:
  "\<exists>e' t'. generate_new_agents env_crowd p_predator_step p_prey_step [350, 0, 351, 0, 352, 0]
      = Some (Inr (e', t'))"
  by (simp add: generate_new_agents_def crowd_facts crowd_num_new Let_def
      randint_def agents_of_create_agent)

text \<open>The 334 predators under a cap of 335, with the factors of \<^verbatim>\<open>step\<close>: the phase
  returns with 336 predators and one prey.\<close>

theorem spawn_gated_by_cap_witness:
  "\<exists>e' t'. generate_new_agents env_crowd p_predator_step p_prey_step [350, 0, 351, 0, 352, 0]
       = Some (Inr (e', t')) \<and>
     length (agents_of Predator e') = 336 \<and> length (agents_of Prey e') = 1 \<and>
     num_new env_crowd (length (agents_of Predator env_crowd)) (max_num_predators env_crowd)
       p_predator_step +
     num_new env_crowd (length (agents_of Prey env_crowd)) (max_num_preys env_crowd) p_prey_step
       \<le> length (empty_cells env_crowd)"
proof -
  from crowd_returns obtain e' t' where
    g: "generate_new_agents env_crowd p_predator_step p_prey_step [350, 0, 351, 0, 352, 0]
          = Some (Inr (e', t'))"
    by blast
  note th = spawn_gated_by_cap [of env_crowd p_predator_step p_prey_step
      "[350, 0, 351, 0, 352, 0]" e' t']
  from th g have "length (agents_of Predator e') = 336 \<and> length (agents_of Prey e') = 1"
    using crowd_num_new by (simp add: crowd_facts num_new_def)
  moreover from th g have
    "num_new env_crowd (length (agents_of Predator env_crowd)) (max_num_predators env_crowd)
       p_predator_step +
     num_new env_crowd (length (agents_of Prey env_crowd)) (max_num_preys env_crowd) p_prey_step
       \<le> length (empty_cells env_crowd)" by blast
  ultimately show ?thesis using g by blast
qed

text \<open>Claim C4 as the spec states it fails: with 334 predators under a cap of 335 and
  the factor 0.003 of \<^verbatim>\<open>step\<close>, the spawn adds \<open>max(1, ceil(1.002)) = 2\<close> predators and
  leaves 336.\<close>

theorem cap_respect_counterexample:
  "\<exists>e' t'. generate_new_agents env_crowd p_predator_step p_prey_step [350, 0, 351, 0, 352, 0]
       = Some (Inr (e', t')) \<and>
     length (agents_of Predator env_crowd) \<le> max_num_predators env_crowd \<and>
     max_num_predators e' < length (agents_of Predator e')"
proof -
  from crowd_returns obtain e' t' where
    g: "generate_new_agents env_crowd p_predator_step p_prey_step [350, 0, 351, 0, 352, 0]
          = Some (Inr (e', t'))"
    by blast
  then obtain e1 t1 where
    s1: "spawn Predator (num_new env_crowd (length (agents_of Predator env_crowd))
             (max_num_predators env_crowd) p_predator_step)
           env_crowd [350, 0, 351, 0, 352, 0] = Some (Inr (e1, t1))" and
    s2: "spawn Prey (num_new env_crowd (length (agents_of Prey env_crowd))
             (max_num_preys env_crowd) p_prey_step) e1 t1 = Some (Inr (e', t'))"
    by (auto simp: generate_new_agents_def Let_def split: option.splits sum.splits)
  have m: "max_num_predators e' = 335"
    using spawn_count[OF s1, of Predator] spawn_count[OF s2, of Predator]
    by (simp add: crowd_facts)
  have c: "length (agents_of Predator e') = 336"
    using generate_count(1)[OF g] crowd_num_new by (simp add: crowd_facts)
  have "length (agents_of Predator env_crowd) \<le> max_num_predators env_crowd"
    by (simp add: crowd_facts)
  with g m c show ?thesis by simp
qed

text \<open>
  Claim C10, as amended. When no agent of a role is alive and the cap of the role is
  positive, a spawn phase that returns has created exactly one agent of that role,
  \<open>max(1, ceil(0 * p)) = 1\<close> (the product of the floats 0 and \<open>p\<close> is 0). The phase
  returns, for some random sequence, exactly when the grid has as many empty cells as
  the two roles are to get agents; on a grid with fewer it never returns and the role
  stays extinct.
\<close>

theorem extinct_role_respawns:
  "(generate_new_agents e p_predator p_prey t = Some (Inr (e', t')) \<longrightarrow>
      (agents_of Predator e = [] \<and> 0 < max_num_predators e \<and> float_mul e 0 p_predator = 0 \<longrightarrow>
         length (agents_of Predator e') = 1) \<and>
      (agents_of Prey e = [] \<and> 0 < max_num_preys e \<and> float_mul e 0 p_prey = 0 \<longrightarrow>
         length (agents_of Prey e') = 1)) \<and>
   ((\<exists>t1 e1 t1'. generate_new_agents e p_predator p_prey t1 = Some (Inr (e1, t1'))) =
      (num_new e (length (agents_of Predator e)) (max_num_predators e) p_predator +
       num_new e (length (agents_of Prey e)) (max_num_preys e) p_prey
         \<le> length (empty_cells e)))"
proof (rule conjI)
  show "generate_new_agents e p_predator p_prey t = Some (Inr (e', t')) \<longrightarrow>
      (agents_of Predator e = [] \<and> 0 < max_num_predators e \<and> float_mul e 0 p_predator = 0 \<longrightarrow>
         length (agents_of Predator e') = 1) \<and>
      (agents_of Prey e = [] \<and> 0 < max_num_preys e \<and> float_mul e 0 p_prey = 0 \<longrightarrow>
         length (agents_of Prey e') = 1)"
    using generate_count(1,2)[of e p_predator p_prey t e' t'] by (simp add: num_new_def)
next
  show "(\<exists>t1 e1 t1'. generate_new_agents e p_predator p_prey t1 = Some (Inr (e1, t1'))) =
      (num_new e (length (agents_of Predator e)) (max_num_predators e) p_predator +
       num_new e (length (agents_of Prey e)) (max_num_preys e) p_prey
         \<le> length (empty_cells e))"
    using generate_count(3)[of e p_predator p_prey] generate_new_agents_returns[of e p_predator p_prey]
    by blast
qed

lemma extinct_facts:
  "agents_of Predator env_extinct = []" "agents_of Prey env_extinct = [0]"
  "max_num_predators env_extinct = 10000" "max_num_preys env_extinct = 10000"
  "length (empty_cells env_extinct) = 8" "float_mul env_extinct = (*)"
  "grid_size env_extinct = (3, 3)" "grid env_extinct = (\<lambda>_. Empty)((1, 1) := Ref 0)"
  by (simp_all add: env_extinct_def init_env_def agents_of_def is_role_def empty_cells_def
      cells_def upto.simps)

lemma extinct_num_new:
  "num_new env_extinct 0 10000 p_predator_step = Suc 0"
  "num_new env_extinct (Suc 0) 10000 p_prey_step = Suc 0"
  by (simp_all add: num_new_def extinct_facts p_predator_step_def p_prey_step_def)

text \<open>On the grid with one prey and no predator the phase places a predator at (0,0)
  and a prey at (2,2).\<close>

theorem extinct_role_respawns_witness:
  "agents_of Predator env_extinct = [] \<and> 0 < max_num_predators env_extinct \<and>
   float_mul env_extinct 0 p_predator_step = 0 \<and>
   (\<exists>e' t'. generate_new_agents env_extinct p_predator_step p_prey_step [0, 0, 2, 2]
        = Some (Inr (e', t')) \<and> length (agents_of Predator e') = 1) \<and>
   num_new env_extinct (length (agents_of Predator env_extinct)) (max_num_predators env_extinct)
     p_predator_step +
   num_new env_extinct (length (agents_of Prey env_extinct)) (max_num_preys env_extinct) p_prey_step
     \<le> length (empty_cells env_extinct)"
proof -
  have "\<exists>e' t'. generate_new_agents env_extinct p_predator_step p_prey_step [0, 0, 2, 2]
          = Some (Inr (e', t'))"
    by (simp add: generate_new_agents_def extinct_facts extinct_num_new Let_def randint_def)
  then obtain e' t' where
    g: "generate_new_agents env_extinct p_predator_step p_prey_step [0, 0, 2, 2]
          = Some (Inr (e', t'))"
    by blast
  have f: "agents_of Predator env_extinct = [] \<and> 0 < max_num_predators env_extinct \<and>
      float_mul env_extinct 0 p_predator_step = 0"
    by (simp add: extinct_facts)
  note th = extinct_role_respawns [of env_extinct p_predator_step p_prey_step "[0, 0, 2, 2]" e' t']
  from th g f have "length (agents_of Predator e') = 1" by blast
  moreover from th g have
    "num_new env_extinct (length (agents_of Predator env_extinct)) (max_num_predators env_extinct)
       p_predator_step +
     num_new env_extinct (length (agents_of Prey env_extinct)) (max_num_preys env_extinct) p_prey_step
       \<le> length (empty_cells env_extinct)" by blast
  ultimately show ?thesis using g f by blast
qed

lemma packed_facts:
  "agents_of Predator env_packed = []" "max_num_predators env_packed = 10000"
  "grid_size env_packed = (2, 1)"
  "grid env_packed = (\<lambda>_. Empty)((0, 0) := Ref 0, (1, 0) := Ref 1)"
  by (simp_all add: env_packed_def init_env_def agents_of_def is_role_def)

lemma packed_full: "find_empty (grid_size env_packed) (grid env_packed) t = None"
proof (rule find_empty_full)
  fix x y :: int
  assume "0 \<le> x" "x < fst (grid_size env_packed)" "0 \<le> y" "y < snd (grid_size env_packed)"
  then have "(x = 0 \<or> x = 1) \<and> y = 0" by (auto simp: packed_facts)
  then show "grid env_packed (x, y) \<noteq> Empty" by (auto simp: packed_facts)
qed (simp_all add: packed_facts)

text \<open>Claim C10 as the spec states it fails on a full grid: with two prey on the two
  cells, no predator and a cap of 10000, the spawn phase never returns, whatever the
  random sequence, and no predator is created.\<close>

theorem extinct_role_counterexample:
  "agents_of Predator env_packed = [] \<and> 0 < max_num_predators env_packed \<and>
   (\<forall>t. generate_new_agents env_packed p_predator_step p_prey_step t = None)"
proof -
  have pos: "0 < num_new env_packed 0 10000 p_predator_step"
    by (simp add: num_new_def)
  have "\<And>t. spawn Predator (num_new env_packed 0 10000 p_predator_step) env_packed t = None"
  proof -
    fix t
    from pos obtain k where k: "num_new env_packed 0 10000 p_predator_step = Suc k"
      by (cases "num_new env_packed 0 10000 p_predator_step") auto
    show "spawn Predator (num_new env_packed 0 10000 p_predator_step) env_packed t = None"
      unfolding k by (simp add: packed_full Let_def)
  qed
  then have "\<And>t. generate_new_agents env_packed p_predator_step p_prey_step t = None"
    by (simp add: generate_new_agents_def packed_facts(1,2) Let_def)
  then show ?thesis by (simp add: packed_facts)
qed

section \<open>Movement\<close>

lemma new_positions_other:
  "new_positions e acts hs np0 = Inr np \<Longrightarrow>
     (\<forall>h' \<in> set hs. agent_id (objects e h') \<noteq> k) \<Longrightarrow> np k = np0 k"
proof (induction hs arbitrary: np0)
  case Nil
  then show ?case by simp
next
  case (Cons x xs)
  from Cons.prems(1) obtain a where
    a: "acts (agent_id (objects e x)) = Some a" and
    r: "new_positions e acts xs
          (np0(agent_id (objects e x) \<mapsto> resolve e (get_position (objects e x)) a)) = Inr np"
    by (auto simp: Let_def split: option.splits)
  from Cons.IH[OF r] Cons.prems(2) show ?case by auto
qed

text \<open>The entry of \<^verbatim>\<open>new_positions\<close> under the id of an agent that shares its id with no
  other agent of the list is the resolved destination of that agent.\<close>

lemma new_positions_own:
  "new_positions e acts hs np0 = Inr np \<Longrightarrow> h \<in> set hs \<Longrightarrow>
     (\<forall>h' \<in> set hs. agent_id (objects e h') = agent_id (objects e h) \<longrightarrow> h' = h) \<Longrightarrow>
     \<exists>a. acts (agent_id (objects e h)) = Some a \<and>
         np (agent_id (objects e h)) = Some (resolve e (get_position (objects e h)) a)"
proof (induction hs arbitrary: np0)
  case Nil
  then show ?case by simp
next
  case (Cons x xs)
  from Cons.prems(1) obtain a where
    a: "acts (agent_id (objects e x)) = Some a" and
    r: "new_positions e acts xs
          (np0(agent_id (objects e x) \<mapsto> resolve e (get_position (objects e x)) a)) = Inr np"
    by (auto simp: Let_def split: option.splits)
  have u: "\<forall>h' \<in> set xs. agent_id (objects e h') = agent_id (objects e h) \<longrightarrow> h' = h"
    using Cons.prems(3) by simp
  show ?case
  proof (cases "h \<in> set xs")
    case True
    from Cons.IH[OF r True u] show ?thesis .
  next
    case False
    then have hx: "h = x" using Cons.prems(2) by simp
    have "\<forall>h' \<in> set xs. agent_id (objects e h') \<noteq> agent_id (objects e h)"
      using u False by blast
    from new_positions_other[OF r this] a hx show ?thesis by simp
  qed
qed

lemma write_agents_position:
  "write_agents np hs e = Inr e' \<Longrightarrow>
     (h \<in> set hs \<longrightarrow> np (agent_id (objects e h)) = Some (get_position (objects e' h))) \<and>
     (h \<notin> set hs \<longrightarrow> objects e' h = objects e h) \<and>
     agent_id (objects e' h) = agent_id (objects e h)"
proof (induction hs arbitrary: e)
  case Nil
  then show ?case by simp
next
  case (Cons x xs)
  from Cons.prems obtain p where
    p: "np (agent_id (objects e x)) = Some p" and
    w: "write_agents np xs (e\<lparr>grid := (grid e)(p := Ref x),
               objects := (objects e)(x := set_position (objects e x) p)\<rparr>) = Inr e'"
    by (auto split: option.splits)
  let ?e1 = "e\<lparr>grid := (grid e)(p := Ref x),
               objects := (objects e)(x := set_position (objects e x) p)\<rparr>"
  have id1: "agent_id (objects ?e1 h) = agent_id (objects e h)"
    by (simp add: set_position_def)
  note ih = Cons.IH[OF w]
  have 1: "h \<in> set (x # xs) \<longrightarrow> np (agent_id (objects e h)) = Some (get_position (objects e' h))"
  proof
    assume hx: "h \<in> set (x # xs)"
    show "np (agent_id (objects e h)) = Some (get_position (objects e' h))"
    proof (cases "h \<in> set xs")
      case True
      with ih id1 show ?thesis by simp
    next
      case False
      with hx have "h = x" by simp
      moreover from ih False have "objects e' h = objects ?e1 h" by simp
      ultimately show ?thesis using p by (simp add: set_position_def get_position_def)
    qed
  qed
  have 2: "h \<notin> set (x # xs) \<longrightarrow> objects e' h = objects e h"
    using ih by simp
  have 3: "agent_id (objects e' h) = agent_id (objects e h)"
    using ih id1 by simp
  from 1 2 3 show ?case by blast
qed

text \<open>After \<^verbatim>\<open>agents_move\<close> an agent whose id is its own stands on its resolved
  destination.\<close>

lemma agents_move_position:
  assumes "agents_move e acts = Inr e'" and "h \<in> set (agents e)"
    and "\<forall>h' \<in> set (agents e). agent_id (objects e h') = agent_id (objects e h) \<longrightarrow> h' = h"
  shows "\<exists>a. acts (agent_id (objects e h)) = Some a \<and>
             get_position (objects e' h) = resolve e (get_position (objects e h)) a"
proof -
  from assms(1) obtain np where
    n: "new_positions e acts (agents e) Map.empty = Inr np" and
    w: "write_agents np (agents e) (e\<lparr>grid := walls_grid (walls_positions e)\<rparr>) = Inr e'"
    by (auto simp: agents_move_def split: sum.splits)
  from new_positions_own[OF n assms(2,3)] obtain a where
    a: "acts (agent_id (objects e h)) = Some a"
      "np (agent_id (objects e h)) = Some (resolve e (get_position (objects e h)) a)" by blast
  from write_agents_position[OF w, of h] assms(2) a show ?thesis by simp
qed

text \<open>
  Claim C7, as amended. The first coordinate of a position runs over the first dimension
  of the grid, the width \<open>w = grid_size[0]\<close>. An agent whose id no other live agent has,
  standing at \<open>(0, y)\<close> and told to go up, is at \<open>(w - 1, y)\<close> after the move when that
  cell was empty before the move, and stays at \<open>(0, y)\<close> when it was not; standing at
  \<open>(w - 1, y)\<close> and told to go down, it is at \<open>(0, y)\<close> after the move when that cell was
  empty, and stays when it was not. The height plays no part.
\<close>

theorem toroidal_wrap:
  assumes "agents_move e acts = Inr e'" and "h \<in> set (agents e)"
    and "\<forall>h' \<in> set (agents e). agent_id (objects e h') = agent_id (objects e h) \<longrightarrow> h' = h"
    and "grid_size e = (w, ht)" and "0 < w"
  shows "(get_position (objects e h) = (0, y) \<and> acts (agent_id (objects e h)) = Some 1 \<longrightarrow>
            get_position (objects e' h) = (if grid e (w - 1, y) = Empty then (w - 1, y) else (0, y))) \<and>
         (get_position (objects e h) = (w - 1, y) \<and> acts (agent_id (objects e h)) = Some 2 \<longrightarrow>
            get_position (objects e' h) = (if grid e (0, y) = Empty then (0, y) else (w - 1, y)))"
proof -
  from agents_move_position[OF assms(1,2,3)] obtain a where
    a: "acts (agent_id (objects e h)) = Some a"
      "get_position (objects e' h) = resolve e (get_position (objects e h)) a" by blast
  with assms(4,5) show ?thesis
    by (auto simp: resolve_def candidate_def zmod_minus1)
qed

lemma edge_facts:
  "agents env_edge = [0]" "grid_size env_edge = (3, 5)"
  "agent_id (objects env_edge 0) = ''pr_0''" "get_position (objects env_edge 0) = (0, 0)"
  "grid env_edge (2, 0) = Empty" "acts_up ''pr_0'' = Some 1"
  by (simp_all add: env_edge_def init_env_def get_position_def acts_up_def)

lemma edge_moves: "\<exists>e'. agents_move env_edge acts_up = Inr e'"
  by (simp add: agents_move_def env_edge_def init_env_def acts_up_def get_position_def
      resolve_def candidate_def Let_def)

text \<open>On the grid of width 3 and height 5 the predator at (0,0), told to go up, is at
  (2,0) after the move.\<close>

theorem toroidal_wrap_witness:
  "0 \<in> set (agents env_edge) \<and> grid_size env_edge = (3, 5) \<and>
   get_position (objects env_edge 0) = (0, 0) \<and>
   acts_up (agent_id (objects env_edge 0)) = Some 1 \<and>
   (\<exists>e'. agents_move env_edge acts_up = Inr e' \<and> get_position (objects e' 0) = (2, 0))"
proof -
  from edge_moves obtain e' where m: "agents_move env_edge acts_up = Inr e'" by blast
  have u: "\<forall>h' \<in> set (agents env_edge).
      agent_id (objects env_edge h') = agent_id (objects env_edge 0) \<longrightarrow> h' = 0"
    by (simp add: edge_facts)
  have i: "0 \<in> set (agents env_edge)" by (simp add: edge_facts)
  from toroidal_wrap [OF m i u edge_facts(2), of 0]
  have "get_position (objects e' 0) = (2, 0)" by (simp add: edge_facts)
  with m i show ?thesis by (auto simp: edge_facts)
qed

text \<open>Claim C7 as the spec states it fails in three ways. On the grid of width 3 and
  height 5 the predator at (0,0), told to go up, lands at (2,0), which is
  \<open>(width - 1, 0)\<close> and not \<open>(height - 1, 0) = (4, 0)\<close>. With a wall on (2,0) it stays at
  (0,0). Of two prey with the same id, the one at (3,0) on a 4 by 4 grid, told to go
  down with (0,0) empty, ends at (2,1), where the other one goes.\<close>

theorem toroidal_wrap_counterexample:
  "(\<exists>e'. agents_move env_edge acts_up = Inr e' \<and> get_position (objects e' 0) = (2, 0) \<and>
         get_position (objects e' 0) \<noteq> (snd (grid_size env_edge) - 1, 0)) \<and>
   (\<exists>e'. agents_move env_edge_wall acts_up = Inr e' \<and> get_position (objects e' 0) = (0, 0) \<and>
         get_position (objects e' 0) \<noteq> (fst (grid_size env_edge_wall) - 1, 0)) \<and>
   (\<exists>e'. agents_move env_twins acts_down = Inr e' \<and>
         get_position (objects env_twins 0) = (fst (grid_size env_twins) - 1, 0) \<and>
         grid env_twins (0, 0) = Empty \<and>
         get_position (objects e' 0) = (2, 1))"
  by (simp add: agents_move_def env_edge_def env_edge_wall_def env_twins_def init_env_def
      acts_up_def acts_down_def get_position_def set_position_def resolve_def candidate_def
      walls_grid_def Let_def)

section \<open>What the phases leave unchanged\<close>

lemma dom_fold_upd:
  "dom (fold (\<lambda>h m. m(k h \<mapsto> v h)) hs m0) = dom m0 \<union> k ` set hs"
  by (induction hs arbitrary: m0) auto

lemma dom_by_id: "dom (by_id e f) = ids e"
  by (simp add: by_id_def ids_def dom_fold_upd)

lemma write_agents_frame:
  assumes "write_agents np hs e = Inr e'"
  shows "agents e' = agents e \<and> walls_positions e' = walls_positions e \<and>
         grid_size e' = grid_size e \<and> predator_scope e' = predator_scope e \<and>
         max_num_predators e' = max_num_predators e \<and> max_num_preys e' = max_num_preys e \<and>
         (\<forall>h. agent_id (objects e' h) = agent_id (objects e h)) \<and>
         (\<forall>h. role (objects e' h) = role (objects e h))"
  using assms
proof (induction hs arbitrary: e)
  case Nil
  then show ?case by simp
next
  case (Cons h hs)
  from Cons.prems obtain p where
    p: "np (agent_id (objects e h)) = Some p" and
    w: "write_agents np hs (e\<lparr>grid := (grid e)(p := Ref h),
               objects := (objects e)(h := set_position (objects e h) p)\<rparr>) = Inr e'"
    by (auto split: option.splits)
  from Cons.IH[OF w] show ?case by (simp add: set_position_def)
qed

lemma agents_move_frame:
  assumes "agents_move e acts = Inr e'"
  shows "agents e' = agents e \<and> walls_positions e' = walls_positions e \<and>
         grid_size e' = grid_size e \<and> predator_scope e' = predator_scope e \<and>
         max_num_predators e' = max_num_predators e \<and> max_num_preys e' = max_num_preys e \<and>
         (\<forall>h. agent_id (objects e' h) = agent_id (objects e h)) \<and>
         (\<forall>h. role (objects e' h) = role (objects e h))"
proof -
  from assms obtain np where
    "write_agents np (agents e) (e\<lparr>grid := walls_grid (walls_positions e)\<rparr>) = Inr e'"
    by (auto simp: agents_move_def split: sum.splits)
  from write_agents_frame[OF this] show ?thesis by simp
qed

lemma agents_of_cong:
  "agents e' = agents e \<Longrightarrow> (\<forall>h. role (objects e' h) = role (objects e h)) \<Longrightarrow>
     agents_of r e' = agents_of r e"
proof -
  assume a: "agents e' = agents e" and r: "\<forall>h. role (objects e' h) = role (objects e h)"
  from r have "is_role e' r = is_role e r" by (simp add: is_role_def fun_eq_iff)
  with a show ?thesis by (simp add: agents_of_def)
qed

lemma ids_cong:
  "agents e' = agents e \<Longrightarrow> (\<forall>h. agent_id (objects e' h) = agent_id (objects e h)) \<Longrightarrow>
     ids e' = ids e"
  by (simp add: ids_def)

text \<open>One predator's turn: at most one agent leaves the registry, and its cell is
  cleared with it.\<close>

lemma hunt_cases:
  assumes "hunt pr e rw dn = Inr (e', rw', dn')"
  shows "(e' = e \<and> rw' = rw \<and> dn' = dn) \<or>
         (\<exists>v t. target_prey_pos e (get_position (objects e pr)) = Some t \<and>
            find (\<lambda>h. get_position (objects e h) = t) (agents e) = Some v \<and>
            agents e' = remove1 v (agents e) \<and>
            grid e' = (grid e)(t := Empty) \<and>
            objects e' = (objects e)(pr := add_health (float_add e) (objects e pr) (health_gained e)) \<and>
            walls_positions e' = walls_positions e \<and> grid_size e' = grid_size e \<and>
            predator_scope e' = predator_scope e \<and> health_gained e' = health_gained e \<and>
            max_num_predators e' = max_num_predators e \<and> max_num_preys e' = max_num_preys e \<and>
            dom rw' = dom rw \<and> dn' = dn(agent_id (objects e v) \<mapsto> True))"
proof (cases "target_prey_pos e (get_position (objects e pr))")
  case None
  with assms show ?thesis by (simp add: hunt_def)
next
  case (Some t)
  show ?thesis
  proof (cases "find (\<lambda>h. get_position (objects e h) = t) (agents e)")
    case None
    with Some assms show ?thesis by (simp add: hunt_def)
  next
    case (Some v)
    note fv = this
    from assms \<open>target_prey_pos e (get_position (objects e pr)) = Some t\<close> fv
    obtain x y where
      x: "rw (agent_id (objects e pr)) = Some x" and
      y: "(rw(agent_id (objects e pr) \<mapsto> x + 1)) (agent_id (objects e v)) = Some y" and
      e': "e' = e\<lparr>agents := remove1 v (agents e), grid := (grid e)(t := Empty),
                  objects := (objects e)(pr := add_health (float_add e) (objects e pr) (health_gained e))\<rparr>" and
      rw': "rw' = (rw(agent_id (objects e pr) \<mapsto> x + 1))(agent_id (objects e v) \<mapsto> y + (- 1))" and
      dn': "dn' = dn(agent_id (objects e v) \<mapsto> True)"
      by (auto simp: hunt_def Let_def split: option.splits)
    have "agent_id (objects e pr) \<in> dom rw" using x by blast
    moreover have "agent_id (objects e v) \<in> dom rw" using x y by (auto split: if_splits)
    ultimately have "dom rw' = dom rw" unfolding rw' by auto
    with \<open>target_prey_pos e (get_position (objects e pr)) = Some t\<close> fv e' dn'
    show ?thesis by simp
  qed
qed

lemma find_in_set: "find P xs = Some x \<Longrightarrow> x \<in> set xs \<and> P x"
  by (induction xs) (auto split: if_splits)

lemma unchanged_refl: "unchanged e e"
  by (simp add: unchanged_def)

lemma unchanged_trans: "unchanged e e1 \<Longrightarrow> unchanged e1 e2 \<Longrightarrow> unchanged e e2"
  unfolding unchanged_def by (intro conjI) (blast, simp_all)

lemma unchanged_ids: "unchanged e e' \<Longrightarrow> ids e' \<subseteq> ids e"
  by (auto simp: unchanged_def ids_def)

lemma hunt_unchanged:
  assumes "hunt pr e rw dn = Inr (e', rw', dn')"
  shows "unchanged e e'"
  using hunt_cases[OF assms]
proof
  assume "e' = e \<and> rw' = rw \<and> dn' = dn"
  then show ?thesis by (simp add: unchanged_refl)
next
  assume "\<exists>v t. target_prey_pos e (get_position (objects e pr)) = Some t \<and>
            find (\<lambda>h. get_position (objects e h) = t) (agents e) = Some v \<and>
            agents e' = remove1 v (agents e) \<and>
            grid e' = (grid e)(t := Empty) \<and>
            objects e' = (objects e)(pr := add_health (float_add e) (objects e pr) (health_gained e)) \<and>
            walls_positions e' = walls_positions e \<and> grid_size e' = grid_size e \<and>
            predator_scope e' = predator_scope e \<and> health_gained e' = health_gained e \<and>
            max_num_predators e' = max_num_predators e \<and> max_num_preys e' = max_num_preys e \<and>
            dom rw' = dom rw \<and> dn' = dn(agent_id (objects e v) \<mapsto> True)"
  then obtain v where
    a: "agents e' = remove1 v (agents e)" and
    ob: "objects e' = (objects e)(pr := add_health (float_add e) (objects e pr) (health_gained e))" and
    rest: "walls_positions e' = walls_positions e" "grid_size e' = grid_size e"
      "max_num_predators e' = max_num_predators e" "max_num_preys e' = max_num_preys e"
    by blast
  have "set (agents e') \<subseteq> set (agents e)" using a by (simp add: set_remove1_subset)
  moreover have "\<forall>h. agent_id (objects e' h) = agent_id (objects e h)"
    using ob by (simp add: add_health_def)
  moreover have "\<forall>h. role (objects e' h) = role (objects e h)"
    using ob by (simp add: add_health_def)
  moreover have "\<forall>h. get_position (objects e' h) = get_position (objects e h)"
    using ob by (simp add: add_health_def get_position_def)
  ultimately show ?thesis using rest by (simp add: unchanged_def)
qed

lemma hunt_dom:
  assumes "hunt pr e rw dn = Inr (e', rw', dn')"
  shows "dom rw' = dom rw \<and> dom dn \<subseteq> dom dn' \<and> dom dn' \<subseteq> dom dn \<union> ids e"
  using hunt_cases[OF assms]
proof
  assume "e' = e \<and> rw' = rw \<and> dn' = dn"
  then show ?thesis by auto
next
  assume "\<exists>v t. target_prey_pos e (get_position (objects e pr)) = Some t \<and>
            find (\<lambda>h. get_position (objects e h) = t) (agents e) = Some v \<and>
            agents e' = remove1 v (agents e) \<and>
            grid e' = (grid e)(t := Empty) \<and>
            objects e' = (objects e)(pr := add_health (float_add e) (objects e pr) (health_gained e)) \<and>
            walls_positions e' = walls_positions e \<and> grid_size e' = grid_size e \<and>
            predator_scope e' = predator_scope e \<and> health_gained e' = health_gained e \<and>
            max_num_predators e' = max_num_predators e \<and> max_num_preys e' = max_num_preys e \<and>
            dom rw' = dom rw \<and> dn' = dn(agent_id (objects e v) \<mapsto> True)"
  then obtain v t where
    f: "find (\<lambda>h. get_position (objects e h) = t) (agents e) = Some v" and
    rw: "dom rw' = dom rw" and
    dn': "dn' = dn(agent_id (objects e v) \<mapsto> True)"
    by blast
  have "v \<in> set (agents e)" using find_in_set[OF f] by simp
  then have "agent_id (objects e v) \<in> ids e" by (simp add: ids_def)
  with dn' rw show ?thesis by auto
qed

lemma hunting_loop_unchanged:
  "hunting_loop prs e rw dn = Inr (e', rw', dn') \<Longrightarrow> unchanged e e'"
proof (induction prs arbitrary: e rw dn)
  case Nil
  then show ?case by (simp add: unchanged_refl)
next
  case (Cons pr prs)
  from Cons.prems obtain e1 rw1 dn1 where
    h: "hunt pr e rw dn = Inr (e1, rw1, dn1)" and
    l: "hunting_loop prs e1 rw1 dn1 = Inr (e', rw', dn')"
    by (auto split: sum.splits)
  from hunt_unchanged[OF h] Cons.IH[OF l] show ?case by (rule unchanged_trans)
qed

lemma hunting_loop_dom:
  "hunting_loop prs e rw dn = Inr (e', rw', dn') \<Longrightarrow>
     dom rw' = dom rw \<and> dom dn \<subseteq> dom dn' \<and> dom dn' \<subseteq> dom dn \<union> ids e"
proof (induction prs arbitrary: e rw dn)
  case Nil
  then show ?case by auto
next
  case (Cons pr prs)
  from Cons.prems obtain e1 rw1 dn1 where
    h: "hunt pr e rw dn = Inr (e1, rw1, dn1)" and
    l: "hunting_loop prs e1 rw1 dn1 = Inr (e', rw', dn')"
    by (auto split: sum.splits)
  have "ids e1 \<subseteq> ids e" using hunt_unchanged[OF h] by (rule unchanged_ids)
  with hunt_dom[OF h] Cons.IH[OF l] show ?case by blast
qed

lemma hunger_step_unchanged:
  "unchanged e (e\<lparr>objects := (objects e)(pr := add_health fa (objects e pr) d)\<rparr>)"
  "unchanged e (e\<lparr>objects := (objects e)(pr := add_health fa (objects e pr) d),
                  agents := remove1 pr (agents e), grid := g\<rparr>)"
  using set_remove1_subset[of pr "agents e"]
  by (auto simp: unchanged_def add_health_def get_position_def)

lemma hunger_loop_unchanged:
  "hunger_loop prs e dn = (e', dn') \<Longrightarrow> unchanged e e'"
proof (induction prs arbitrary: e dn)
  case Nil
  then show ?case by (simp add: unchanged_refl)
next
  case (Cons pr prs)
  let ?e1 = "e\<lparr>objects := (objects e)(pr := add_health (float_add e) (objects e pr) (- hunger))\<rparr>"
  show ?case
  proof (cases "health (objects ?e1 pr) \<le> 0")
    case True
    let ?e2 = "?e1\<lparr>agents := remove1 pr (agents ?e1),
                    grid := (grid ?e1)(get_position (objects ?e1 pr) := Empty)\<rparr>"
    from Cons.prems True have
      l: "hunger_loop prs ?e2 (dn(agent_id (objects ?e1 pr) \<mapsto> True)) = (e', dn')"
      by (simp add: Let_def)
    have "unchanged e ?e2"
      using set_remove1_subset[of pr "agents e"]
      by (auto simp: unchanged_def add_health_def get_position_def)
    with Cons.IH[OF l] show ?thesis by (blast intro: unchanged_trans)
  next
    case False
    from Cons.prems False have l: "hunger_loop prs ?e1 dn = (e', dn')"
      by (simp add: Let_def)
    have "unchanged e ?e1" by (rule hunger_step_unchanged(1))
    with Cons.IH[OF l] show ?thesis by (blast intro: unchanged_trans)
  qed
qed

lemma hunger_loop_dom:
  "hunger_loop prs e dn = (e', dn') \<Longrightarrow>
     dom dn \<subseteq> dom dn' \<and> dom dn' \<subseteq> dom dn \<union> (\<lambda>h. agent_id (objects e h)) ` set prs"
proof (induction prs arbitrary: e dn)
  case Nil
  then show ?case by auto
next
  case (Cons pr prs)
  let ?e1 = "e\<lparr>objects := (objects e)(pr := add_health (float_add e) (objects e pr) (- hunger))\<rparr>"
  have same: "\<And>h. agent_id (objects ?e1 h) = agent_id (objects e h)"
    by (simp add: add_health_def)
  show ?case
  proof (cases "health (objects ?e1 pr) \<le> 0")
    case True
    let ?e2 = "?e1\<lparr>agents := remove1 pr (agents ?e1),
                    grid := (grid ?e1)(get_position (objects ?e1 pr) := Empty)\<rparr>"
    let ?dn1 = "dn(agent_id (objects ?e1 pr) \<mapsto> True)"
    from Cons.prems True have l: "hunger_loop prs ?e2 ?dn1 = (e', dn')"
      by (simp add: Let_def)
    have s2: "\<And>h. agent_id (objects ?e2 h) = agent_id (objects e h)"
      using same by simp
    from Cons.IH[OF l] have
      "dom ?dn1 \<subseteq> dom dn' \<and> dom dn' \<subseteq> dom ?dn1 \<union> (\<lambda>h. agent_id (objects e h)) ` set prs"
      unfolding s2 .
    moreover have "dom ?dn1 = insert (agent_id (objects e pr)) (dom dn)"
      by (simp add: add_health_def)
    ultimately show ?thesis by auto
  next
    case False
    from Cons.prems False have l: "hunger_loop prs ?e1 dn = (e', dn')"
      by (simp add: Let_def)
    from Cons.IH[OF l] have
      "dom dn \<subseteq> dom dn' \<and> dom dn' \<subseteq> dom dn \<union> (\<lambda>h. agent_id (objects e h)) ` set prs"
      unfolding same .
    then show ?thesis by auto
  qed
qed

text \<open>The phases of \<^verbatim>\<open>step\<close>, taken apart.\<close>

lemma step_phases:
  assumes "step e acts t = Some (Inr r)"
  shows "\<exists>e1 e2 rw2 dn2 e3 dn3 t4.
           agents_move e acts = Inr e1 \<and>
           hunting e1 (by_id e (\<lambda>_. 0)) (by_id e (\<lambda>_. False)) = Inr (e2, rw2, dn2) \<and>
           predator_hunger e2 dn2 = (e3, dn3) \<and>
           generate_new_agents e3 p_predator_step p_prey_step t = Some (Inr (env_of r, t4)) \<and>
           rewards_of r = rw2 \<and> dones_of r = dn3"
proof (cases "agents_move e acts")
  case (Inl err)
  with assms show ?thesis by (simp add: step_def)
next
  case (Inr e1)
  note m = this
  show ?thesis
  proof (cases "hunting e1 (by_id e (\<lambda>_. 0)) (by_id e (\<lambda>_. False))")
    case (Inl err)
    with assms m show ?thesis by (simp add: step_def)
  next
    case (Inr res)
    obtain e2 rw2 dn2 where res: "res = (e2, rw2, dn2)" by (cases res)
    obtain e3 dn3 where g: "predator_hunger e2 dn2 = (e3, dn3)" by (cases "predator_hunger e2 dn2")
    show ?thesis
    proof (cases "generate_new_agents e3 p_predator_step p_prey_step t")
      case None
      with assms m Inr res g show ?thesis by (simp add: step_def)
    next
      case (Some b)
      then obtain a where b: "b = Inr a"
        using assms m Inr res g by (cases b) (simp_all add: step_def)
      obtain e4 t4 where a: "a = (e4, t4)" by (cases a)
      note Some = Some[unfolded b]
      from assms m Inr res g Some a
      have "r = \<lparr>observations = by_id e4 (get_observation e4),
                 rewards_of = rw2, dones_of = dn3, env_of = e4, tape_of = t4\<rparr>"
        by (simp add: step_def)
      then have "env_of r = e4" "rewards_of r = rw2" "dones_of r = dn3" by simp_all
      with m Inr res g Some a show ?thesis by simp
    qed
  qed
qed

text \<open>
  Claim C9. When \<^verbatim>\<open>step\<close> returns, the keys of the rewards and of the dones are exactly
  the ids of the agents alive when it was called; an id outside this set, such as the
  fresh id of an agent spawned in the call, has no entry.
\<close>

theorem step_keys:
  assumes "step e acts t = Some (Inr r)"
  shows "dom (rewards_of r) = ids e \<and> dom (dones_of r) = ids e \<and>
         (\<forall>k. k \<notin> ids e \<longrightarrow> rewards_of r k = None \<and> dones_of r k = None)"
proof -
  from step_phases[OF assms] obtain e1 e2 rw2 dn2 e3 dn3 where
    m: "agents_move e acts = Inr e1" and
    h0: "hunting e1 (by_id e (\<lambda>_. 0)) (by_id e (\<lambda>_. False)) = Inr (e2, rw2, dn2)" and
    g0: "predator_hunger e2 dn2 = (e3, dn3)" and
    r: "rewards_of r = rw2" "dones_of r = dn3"
    by (elim exE conjE)
  from h0 have h: "hunting_loop (agents_of Predator e1) e1 (by_id e (\<lambda>_. 0)) (by_id e (\<lambda>_. False))
          = Inr (e2, rw2, dn2)" by (simp add: hunting_def)
  from g0 have g: "hunger_loop (agents_of Predator e2) e2 dn2 = (e3, dn3)"
    by (simp add: predator_hunger_def)
  have i1: "ids e1 = ids e"
    by (rule ids_cong) (use agents_move_frame[OF m] in simp_all)
  note hd = hunting_loop_dom[OF h]
  have rw: "dom rw2 = ids e" using hd by (simp add: dom_by_id)
  have "ids e \<subseteq> dom dn2" using hd by (simp add: dom_by_id)
  moreover have "dom dn2 \<subseteq> ids e" using hd i1 by (simp add: dom_by_id)
  ultimately have dn2: "dom dn2 = ids e" by (rule subset_antisym[rotated])
  have i2: "ids e2 \<subseteq> ids e"
    using unchanged_ids[OF hunting_loop_unchanged[OF h]] i1 by simp
  have "(\<lambda>h. agent_id (objects e2 h)) ` set (agents_of Predator e2) \<subseteq> ids e2"
    by (auto simp: agents_of_def ids_def)
  with i2 have sub: "(\<lambda>h. agent_id (objects e2 h)) ` set (agents_of Predator e2) \<subseteq> ids e"
    by blast
  note gd = hunger_loop_dom[OF g]
  have "ids e \<subseteq> dom dn3" using gd dn2 by simp
  moreover have "dom dn3 \<subseteq> ids e"
  proof -
    have "dom dn3 \<subseteq> dom dn2 \<union> (\<lambda>h. agent_id (objects e2 h)) ` set (agents_of Predator e2)"
      using gd by simp
    also have "\<dots> \<subseteq> ids e" using dn2 sub by simp
    finally show ?thesis .
  qed
  ultimately have dn3: "dom dn3 = ids e" by (rule subset_antisym[rotated])
  have "\<forall>k. k \<notin> ids e \<longrightarrow> rw2 k = None \<and> dn3 k = None"
    using rw dn3 by (auto simp: dom_def)
  with rw dn3 r show ?thesis by simp
qed

lemmas eval_defs = step_def agents_move_def hunting_def predator_hunger_def generate_new_agents_def
  by_id_def hunt_def target_prey_pos_def prey_in_scope_def wrap_def is_prey_cell_def
  agents_of_def is_role_def create_agent_def new_ref_def num_new_def resolve_def candidate_def
  walls_grid_def get_position_def set_position_def add_health_def randint_def prefix_of_def
  init_env_def hunger_def p_predator_step_def p_prey_step_def Let_def upto.simps

lemma kill_step: "\<exists>r. step env_kill acts_stay [0, 0, 3, 3] = Some (Inr r)"
  by (simp add: env_kill_def acts_stay_def eval_defs str.simps)

lemma kill_ids: "ids env_kill = {''pr_0'', ''py_0'', ''py_1''}"
  by (auto simp: ids_def env_kill_def)

text \<open>On the 5 by 5 grid the predator kills the prey \<^verbatim>\<open>py_0\<close>; the spawn then creates a
  predator \<^verbatim>\<open>pr_1\<close> and a prey. The keys are the three ids of the start, and the fresh
  id \<^verbatim>\<open>pr_1\<close> has no entry.\<close>

theorem step_keys_witness:
  "\<exists>r. step env_kill acts_stay [0, 0, 3, 3] = Some (Inr r) \<and>
       dom (rewards_of r) = {''pr_0'', ''py_0'', ''py_1''} \<and>
       dom (dones_of r) = {''pr_0'', ''py_0'', ''py_1''} \<and>
       rewards_of r ''pr_1'' = None \<and> dones_of r ''pr_1'' = None"
proof -
  from kill_step obtain r where s: "step env_kill acts_stay [0, 0, 3, 3] = Some (Inr r)" by blast
  have "''pr_1'' \<notin> ids env_kill" by (simp add: kill_ids)
  with step_keys [OF s] s show ?thesis by (auto simp: kill_ids)
qed

section \<open>Hunting\<close>

lemma length_filter_remove1:
  "length (filter P xs) \<le> Suc (length (filter P (remove1 v xs)))"
  by (induction xs) auto

lemma hunt_count:
  assumes "hunt pr e rw dn = Inr (e', rw', dn')"
  shows "length (agents_of r e) \<le> Suc (length (agents_of r e')) \<and>
         length (agents e) \<le> Suc (length (agents e'))"
  using hunt_cases[OF assms]
proof
  assume "e' = e \<and> rw' = rw \<and> dn' = dn"
  then show ?thesis by simp
next
  assume "\<exists>v t. target_prey_pos e (get_position (objects e pr)) = Some t \<and>
            find (\<lambda>h. get_position (objects e h) = t) (agents e) = Some v \<and>
            agents e' = remove1 v (agents e) \<and>
            grid e' = (grid e)(t := Empty) \<and>
            objects e' = (objects e)(pr := add_health (float_add e) (objects e pr) (health_gained e)) \<and>
            walls_positions e' = walls_positions e \<and> grid_size e' = grid_size e \<and>
            predator_scope e' = predator_scope e \<and> health_gained e' = health_gained e \<and>
            max_num_predators e' = max_num_predators e \<and> max_num_preys e' = max_num_preys e \<and>
            dom rw' = dom rw \<and> dn' = dn(agent_id (objects e v) \<mapsto> True)"
  then obtain v where
    a: "agents e' = remove1 v (agents e)" and
    ob: "objects e' = (objects e)(pr := add_health (float_add e) (objects e pr) (health_gained e))"
    by blast
  have "is_role e' r = is_role e r"
    using ob by (simp add: is_role_def fun_eq_iff add_health_def)
  then have "agents_of r e' = filter (is_role e r) (remove1 v (agents e))"
    using a by (simp add: agents_of_def)
  then have 1: "length (agents_of r e) \<le> Suc (length (agents_of r e'))"
    by (simp add: agents_of_def length_filter_remove1)
  have 2: "length (agents e) \<le> Suc (length (agents e'))"
    using a length_filter_remove1[of "\<lambda>_. True" "agents e" v] by simp
  from 1 2 show ?thesis ..
qed

lemma hunting_loop_count:
  "hunting_loop prs e rw dn = Inr (e', rw', dn') \<Longrightarrow>
     length (agents_of r e) \<le> length (agents_of r e') + length prs \<and>
     length (agents e) \<le> length (agents e') + length prs"
proof (induction prs arbitrary: e rw dn)
  case Nil
  then show ?case by simp
next
  case (Cons pr prs)
  from Cons.prems obtain e1 rw1 dn1 where
    h: "hunt pr e rw dn = Inr (e1, rw1, dn1)" and
    l: "hunting_loop prs e1 rw1 dn1 = Inr (e', rw', dn')"
    by (auto split: sum.splits)
  from hunt_count[OF h, of r] Cons.IH[OF l] show ?case by simp
qed

text \<open>A predator's turn does not raise when the rewards have a key for the predator and
  for every agent of the registry.\<close>

lemma hunt_total:
  assumes "agent_id (objects e pr) \<in> dom rw"
    and "\<forall>h \<in> set (agents e). agent_id (objects e h) \<in> dom rw"
  shows "\<exists>e' rw' dn'. hunt pr e rw dn = Inr (e', rw', dn')"
proof (cases "target_prey_pos e (get_position (objects e pr))")
  case None
  then show ?thesis by (simp add: hunt_def)
next
  case (Some t)
  show ?thesis
  proof (cases "find (\<lambda>h. get_position (objects e h) = t) (agents e)")
    case None
    with Some show ?thesis by (simp add: hunt_def)
  next
    case (Some v)
    then have "v \<in> set (agents e)" using find_in_set by fastforce
    with assms(2) obtain y where y: "rw (agent_id (objects e v)) = Some y" by blast
    from assms(1) obtain x where x: "rw (agent_id (objects e pr)) = Some x" by blast
    from \<open>target_prey_pos e (get_position (objects e pr)) = Some t\<close> Some x y
    show ?thesis by (simp add: hunt_def Let_def)
  qed
qed

lemma hunting_loop_total:
  "(\<forall>h \<in> set prs \<union> set (agents e). agent_id (objects e h) \<in> dom rw) \<Longrightarrow>
     \<exists>e' rw' dn'. hunting_loop prs e rw dn = Inr (e', rw', dn')"
proof (induction prs arbitrary: e rw dn)
  case Nil
  then show ?case by simp
next
  case (Cons pr prs)
  from Cons.prems have "agent_id (objects e pr) \<in> dom rw"
    "\<forall>h \<in> set (agents e). agent_id (objects e h) \<in> dom rw" by simp_all
  from hunt_total[OF this] obtain e1 rw1 dn1 where
    h: "hunt pr e rw dn = Inr (e1, rw1, dn1)" by blast
  have u: "unchanged e e1" by (rule hunt_unchanged[OF h])
  have d: "dom rw1 = dom rw" using hunt_dom[OF h] by simp
  have "\<forall>h \<in> set prs \<union> set (agents e1). agent_id (objects e1 h) \<in> dom rw1"
  proof
    fix h assume "h \<in> set prs \<union> set (agents e1)"
    then have "h \<in> set (pr # prs) \<union> set (agents e)" using u by (auto simp: unchanged_def)
    with Cons.prems have "agent_id (objects e h) \<in> dom rw" by blast
    then show "agent_id (objects e1 h) \<in> dom rw1" using u d by (simp add: unchanged_def)
  qed
  from Cons.IH[OF this] obtain e' rw' dn' where
    "hunting_loop prs e1 rw1 dn1 = Inr (e', rw', dn')" by blast
  with h show ?case by simp
qed

text \<open>
  Claim C6. In a tick whose move phase has returned, hunting returns too, and the
  registry has lost at most as many prey, and at most as many agents at all, as
  predators were alive at the start of the tick. A predator's turn leaves registry and
  grid as they are, or removes one agent \<open>v\<close> of the registry and clears the cell of
  \<open>v\<close> with it: in the state the later predators see, the cell is empty and \<open>v\<close> is
  no longer in the registry.
\<close>

theorem hunting_bound:
  assumes "agents_move e acts = Inr e1"
  shows "(\<exists>e2 rw2 dn2.
            hunting e1 (by_id e (\<lambda>_. 0)) (by_id e (\<lambda>_. False)) = Inr (e2, rw2, dn2) \<and>
            length (agents_of Prey e) \<le> length (agents_of Prey e2) + length (agents_of Predator e) \<and>
            length (agents e) \<le> length (agents e2) + length (agents_of Predator e)) \<and>
         (\<forall>pr s rw dn s' rw' dn'. hunt pr s rw dn = Inr (s', rw', dn') \<longrightarrow>
            (agents s' = agents s \<and> grid s' = grid s) \<or>
            (\<exists>v \<in> set (agents s).
               agents s' = remove1 v (agents s) \<and>
               grid s' (get_position (objects s v)) = Empty \<and>
               \<not> is_prey_cell s' (get_position (objects s v)) \<and>
               (distinct (agents s) \<longrightarrow> v \<notin> set (agents s'))))"
proof (rule conjI)
  note mf = agents_move_frame[OF assms]
  have i1: "ids e1 = ids e" by (rule ids_cong) (use mf in simp_all)
  have pr: "agents_of Predator e1 = agents_of Predator e"
    by (rule agents_of_cong) (use mf in simp_all)
  have py: "agents_of Prey e1 = agents_of Prey e"
    by (rule agents_of_cong) (use mf in simp_all)
  have "\<forall>h \<in> set (agents_of Predator e1) \<union> set (agents e1).
          agent_id (objects e1 h) \<in> dom (by_id e (\<lambda>_. 0::int))"
  proof
    fix h assume "h \<in> set (agents_of Predator e1) \<union> set (agents e1)"
    then have "h \<in> set (agents e1)" by (auto simp: agents_of_def)
    then have "agent_id (objects e1 h) \<in> ids e1" by (simp add: ids_def)
    then show "agent_id (objects e1 h) \<in> dom (by_id e (\<lambda>_. 0::int))"
      using i1 by (simp add: dom_by_id)
  qed
  from hunting_loop_total[OF this] obtain e2 rw2 dn2 where
    h: "hunting_loop (agents_of Predator e1) e1 (by_id e (\<lambda>_. 0)) (by_id e (\<lambda>_. False))
          = Inr (e2, rw2, dn2)" by blast
  from hunting_loop_count[OF h, of Prey] pr py mf
  have "length (agents_of Prey e) \<le> length (agents_of Prey e2) + length (agents_of Predator e) \<and>
        length (agents e) \<le> length (agents e2) + length (agents_of Predator e)" by simp
  with h show "\<exists>e2 rw2 dn2.
            hunting e1 (by_id e (\<lambda>_. 0)) (by_id e (\<lambda>_. False)) = Inr (e2, rw2, dn2) \<and>
            length (agents_of Prey e) \<le> length (agents_of Prey e2) + length (agents_of Predator e) \<and>
            length (agents e) \<le> length (agents e2) + length (agents_of Predator e)"
    by (simp add: hunting_def)
next
  show "\<forall>pr s rw dn s' rw' dn'. hunt pr s rw dn = Inr (s', rw', dn') \<longrightarrow>
            (agents s' = agents s \<and> grid s' = grid s) \<or>
            (\<exists>v \<in> set (agents s).
               agents s' = remove1 v (agents s) \<and>
               grid s' (get_position (objects s v)) = Empty \<and>
               \<not> is_prey_cell s' (get_position (objects s v)) \<and>
               (distinct (agents s) \<longrightarrow> v \<notin> set (agents s')))"
  proof (intro allI impI)
    fix pr s rw dn s' rw' dn'
    assume hs: "hunt pr s rw dn = Inr (s', rw', dn')"
    from hunt_cases[OF hs]
    show "(agents s' = agents s \<and> grid s' = grid s) \<or>
            (\<exists>v \<in> set (agents s).
               agents s' = remove1 v (agents s) \<and>
               grid s' (get_position (objects s v)) = Empty \<and>
               \<not> is_prey_cell s' (get_position (objects s v)) \<and>
               (distinct (agents s) \<longrightarrow> v \<notin> set (agents s')))"
    proof
      assume "s' = s \<and> rw' = rw \<and> dn' = dn"
      then show ?thesis by simp
    next
      assume "\<exists>v t. target_prey_pos s (get_position (objects s pr)) = Some t \<and>
            find (\<lambda>h. get_position (objects s h) = t) (agents s) = Some v \<and>
            agents s' = remove1 v (agents s) \<and>
            grid s' = (grid s)(t := Empty) \<and>
            objects s' = (objects s)(pr := add_health (float_add s) (objects s pr) (health_gained s)) \<and>
            walls_positions s' = walls_positions s \<and> grid_size s' = grid_size s \<and>
            predator_scope s' = predator_scope s \<and> health_gained s' = health_gained s \<and>
            max_num_predators s' = max_num_predators s \<and> max_num_preys s' = max_num_preys s \<and>
            dom rw' = dom rw \<and> dn' = dn(agent_id (objects s v) \<mapsto> True)"
      then obtain v t where
        f: "find (\<lambda>h. get_position (objects s h) = t) (agents s) = Some v" and
        a: "agents s' = remove1 v (agents s)" and
        g: "grid s' = (grid s)(t := Empty)"
        by blast
      from find_in_set[OF f] have v: "v \<in> set (agents s)" "get_position (objects s v) = t"
        by simp_all
      have "grid s' (get_position (objects s v)) = Empty" using g v by simp
      moreover from this have "\<not> is_prey_cell s' (get_position (objects s v))"
        by (simp add: is_prey_cell_def)
      moreover have "distinct (agents s) \<longrightarrow> v \<notin> set (agents s')" using a by simp
      ultimately show ?thesis using v a by blast
    qed
  qed
qed

lemma kill_hunt:
  "\<exists>e1 e2 rw2 dn2. agents_move env_kill acts_stay = Inr e1 \<and>
     hunting e1 (by_id env_kill (\<lambda>_. 0)) (by_id env_kill (\<lambda>_. False)) = Inr (e2, rw2, dn2) \<and>
     agents e2 = [0, 2]"
  by (simp add: env_kill_def acts_stay_def eval_defs)

lemma kill_counts:
  "length (agents_of Prey env_kill) = 2" "length (agents_of Predator env_kill) = 1"
  "length (agents env_kill) = 3"
  by (simp_all add: env_kill_def agents_of_def is_role_def)

text \<open>On the 5 by 5 grid the one predator kills the prey next to it: of three agents,
  two are left.\<close>

lemma kill_hunt_one:
  "\<exists>s' rw' dn'. hunt 0 env_kill (by_id env_kill (\<lambda>_. 0)) (by_id env_kill (\<lambda>_. False))
       = Inr (s', rw', dn') \<and>
     agents s' = [0, 2] \<and> grid s' (1, 2) = Empty"
  by (simp add: env_kill_def eval_defs)

theorem hunting_bound_witness:
  "(\<exists>e1 e2 rw2 dn2. agents_move env_kill acts_stay = Inr e1 \<and>
     hunting e1 (by_id env_kill (\<lambda>_. 0)) (by_id env_kill (\<lambda>_. False)) = Inr (e2, rw2, dn2) \<and>
     agents e2 = [0, 2] \<and>
     length (agents_of Prey env_kill) \<le> length (agents_of Prey e2) + length (agents_of Predator env_kill) \<and>
     length (agents env_kill) \<le> length (agents e2) + length (agents_of Predator env_kill)) \<and>
   (\<exists>s' rw' dn'. hunt 0 env_kill (by_id env_kill (\<lambda>_. 0)) (by_id env_kill (\<lambda>_. False))
       = Inr (s', rw', dn') \<and>
     agents s' = [0, 2] \<and> grid s' (1, 2) = Empty \<and>
     (\<exists>v \<in> set (agents env_kill). agents s' = remove1 v (agents env_kill) \<and>
         grid s' (get_position (objects env_kill v)) = Empty))"
proof -
  from kill_hunt obtain e1 e2 rw2 dn2 where
    m: "agents_move env_kill acts_stay = Inr e1" and
    h: "hunting e1 (by_id env_kill (\<lambda>_. 0)) (by_id env_kill (\<lambda>_. False)) = Inr (e2, rw2, dn2)" and
    a: "agents e2 = [0, 2]" by blast
  note th = hunting_bound [OF m]
  from th h
  have "length (agents_of Prey env_kill) \<le> length (agents_of Prey e2) + length (agents_of Predator env_kill) \<and>
     length (agents env_kill) \<le> length (agents e2) + length (agents_of Predator env_kill)"
    by auto
  with m h a have 1: "\<exists>e1 e2 rw2 dn2. agents_move env_kill acts_stay = Inr e1 \<and>
     hunting e1 (by_id env_kill (\<lambda>_. 0)) (by_id env_kill (\<lambda>_. False)) = Inr (e2, rw2, dn2) \<and>
     agents e2 = [0, 2] \<and>
     length (agents_of Prey env_kill) \<le> length (agents_of Prey e2) + length (agents_of Predator env_kill) \<and>
     length (agents env_kill) \<le> length (agents e2) + length (agents_of Predator env_kill)"
    by blast
  from kill_hunt_one obtain s' rw' dn' where
    k: "hunt 0 env_kill (by_id env_kill (\<lambda>_. 0)) (by_id env_kill (\<lambda>_. False)) = Inr (s', rw', dn')"
      "agents s' = [0, 2]" "grid s' (1, 2) = Empty" by blast
  have ag: "agents env_kill = [0, 1, 2]" by (simp add: env_kill_def)
  from th k(1) have "(agents s' = agents env_kill \<and> grid s' = grid env_kill) \<or>
            (\<exists>v \<in> set (agents env_kill).
               agents s' = remove1 v (agents env_kill) \<and>
               grid s' (get_position (objects env_kill v)) = Empty \<and>
               \<not> is_prey_cell s' (get_position (objects env_kill v)) \<and>
               (distinct (agents env_kill) \<longrightarrow> v \<notin> set (agents s')))" by blast
  with k(2) ag have "\<exists>v \<in> set (agents env_kill). agents s' = remove1 v (agents env_kill) \<and>
         grid s' (get_position (objects env_kill v)) = Empty" by auto
  with k have 2: "\<exists>s' rw' dn'. hunt 0 env_kill (by_id env_kill (\<lambda>_. 0)) (by_id env_kill (\<lambda>_. False))
       = Inr (s', rw', dn') \<and>
     agents s' = [0, 2] \<and> grid s' (1, 2) = Empty \<and>
     (\<exists>v \<in> set (agents env_kill). agents s' = remove1 v (agents env_kill) \<and>
         grid s' (get_position (objects env_kill v)) = Empty)" by blast
  from 1 2 show ?thesis ..
qed

end
